theory Spec2Isabelle
  imports Complex_Main "HOL-Library.AList"
begin

section \<open>Data model\<close>

text \<open>
  Positions are (row, column) pairs of integers. The grid is a two-dimensional integer
  array: its shape and its content. Cell value 0 is walkable, any other value an obstacle.
\<close>

type_synonym pos = "int \<times> int"

record array2 =
  nrows :: nat
  ncols :: nat
  item :: "nat \<Rightarrow> nat \<Rightarrow> int"

datatype error = IndexError | ValueError | TypeError | InvalidAction | InsufficientFreeCells
  | InvalidGridDimensions

text \<open>
  Indexing a JAX array with an integer: a negative index counts from the end, an index
  still outside the axis is clamped to it, and an axis of size 0 cannot be indexed
  (IndexError).
\<close>

definition jnp_index :: "nat \<Rightarrow> int \<Rightarrow> nat" where
  "jnp_index n i = nat (max 0 (min (int n - 1) (if i < 0 then i + int n else i)))"

definition getitem :: "'a list \<Rightarrow> int \<Rightarrow> error + 'a" where
  "getitem xs i = (if xs = [] then Inl IndexError else Inr (xs ! jnp_index (length xs) i))"

definition grid_at :: "array2 \<Rightarrow> pos \<Rightarrow> error + int" where
  "grid_at g p =
     (case p of (r, c) \<Rightarrow>
        if nrows g = 0 \<or> ncols g = 0 then Inl IndexError
        else Inr (item g (jnp_index (nrows g) r) (jnp_index (ncols g) c)))"

text \<open>
  The kinds of entities (the keys of \<open>state.entities\<close>), and an entity with its fields:
  position, direction and state tag. The same class describes one entity (a position, an
  integer direction) and a batch of entities (a list of positions, a list of directions),
  as a JAX pytree does; \<open>vmap\<close> turns the second into the first.
\<close>

datatype kind = PLAYER | GOAL | KEY | DOOR | BALL | WALL

record 'p positionable =
  position :: 'p

record ('p, 'd) directional = "'p positionable" +
  direction :: 'd

record ('p, 'd) entity = "('p, 'd) directional" +
  tag :: 'd

type_synonym batch = "(pos list, int list) entity"
type_synonym ball = "(pos, int) entity"

text \<open>
  The \<open>State\<close> class is not among the sources, and the two files use it differently.
  \<open>environments/room.py\<close> constructs it from a key, a player (one position, a vector of
  directions) and the goals (a batch of positions), and wraps it in a \<open>Timestep\<close>:
\<close>

record 'k room_state =
  key :: 'k
  player :: "(pos, int list) directional"
  goals :: "pos list positionable"

record ('k, 'o) timestep =
  t :: int
  observation :: 'o
  action :: int
  reward :: real
  step_type :: int
  state :: "'k room_state"

text \<open>
  \<open>transitions.py\<close> reads from the state the random key, the grid and the mapping from
  kind to batch (a Python dict, kept in insertion order); the step counter is the one of
  the spec's data model.
\<close>

record 'k state =
  key :: 'k
  grid :: array2
  entities :: "(kind \<times> batch) list"
  steps :: int

section \<open>Library functions\<close>

text \<open>
  The random generator is JAX's. It is a parameter of the model: \<open>subkey g k n i\<close> is
  child \<open>i\<close> of the \<open>n\<close> children that splitting \<open>k\<close> gives, and \<open>bits g k\<close> the random
  bits drawn from \<open>k\<close>. \<open>jax.random.split(key, n)\<close> returns \<open>n\<close> keys and
  \<open>jax.random.randint(key, (), minval, maxval)\<close> an integer in \<open>[minval, maxval)\<close>.
\<close>

record 'k prng =
  subkey :: "'k \<Rightarrow> nat \<Rightarrow> nat \<Rightarrow> 'k"
  bits :: "'k \<Rightarrow> nat"

definition random_split :: "'k prng \<Rightarrow> 'k \<Rightarrow> nat \<Rightarrow> 'k list" where
  "random_split g k n = map (subkey g k n) [0..<n]"

definition random_randint :: "'k prng \<Rightarrow> 'k \<Rightarrow> int \<Rightarrow> int \<Rightarrow> int" where
  "random_randint g k minval maxval = minval + int (bits g k) mod (maxval - minval)"

text \<open>
  \<open>jax.lax.switch(index, branches, operand)\<close>. An empty sequence of branches is a
  ValueError, and a single branch is applied whatever the index. With two or more, every
  branch is traced and the outputs must have the structure of the output of branch 0 (the
  same pytree and array shapes; TypeError otherwise); the index is then converted to int32,
  which wraps modulo \<open>2^32\<close>, and clamped into the range of the branches. \<open>tree\<close> gives
  the structure of an output; \<open>index\<close> is the integer value of the index array, of whatever
  integer type.
\<close>

definition int32 :: "int \<Rightarrow> int" where
  "int32 i = (i + 2147483648) mod 4294967296 - 2147483648"

definition switch_index :: "int \<Rightarrow> nat \<Rightarrow> nat" where
  "switch_index index n = nat (max 0 (min (int32 index) (int n - 1)))"

definition lax_switch :: "('b \<Rightarrow> 't) \<Rightarrow> int \<Rightarrow> ('a \<Rightarrow> 'b) list \<Rightarrow> 'a \<Rightarrow> error + 'b" where
  "lax_switch tree index branches operand =
     (if branches = [] then Inl ValueError
      else if length branches = 1 then Inr ((branches ! 0) operand)
      else if \<exists>f \<in> set branches. tree (f operand) \<noteq> tree ((branches ! 0) operand)
      then Inl TypeError
      else Inr ((branches ! switch_index index (length branches)) operand))"

text \<open>
  \<open>jax.lax.scan(f, init, xs)\<close> threads the carry through the elements of \<open>xs\<close> in order
  and stacks the outputs. An exception raised by \<open>f\<close> ends the scan.
\<close>

fun lax_scan :: "('c \<Rightarrow> 'x \<Rightarrow> error + ('c \<times> 'y)) \<Rightarrow> 'c \<Rightarrow> 'x list \<Rightarrow> error + ('c \<times> 'y list)" where
  "lax_scan f init [] = Inr (init, [])"
| "lax_scan f init (x # xs) =
     (case f init x of
        Inl e \<Rightarrow> Inl e
      | Inr (carry, y) \<Rightarrow>
          (case lax_scan f carry xs of
             Inl e \<Rightarrow> Inl e
           | Inr (final, ys) \<Rightarrow> Inr (final, y # ys)))"

text \<open>The results of a batched call, or the first exception among them.\<close>

fun collect :: "(error + 'a) list \<Rightarrow> error + 'a list" where
  "collect [] = Inr []"
| "collect (r # rs) =
     (case r of
        Inl e \<Rightarrow> Inl e
      | Inr x \<Rightarrow> (case collect rs of Inl e \<Rightarrow> Inl e | Inr xs \<Rightarrow> Inr (x # xs)))"

section \<open>Helpers of the repository that are not among the sources\<close>

text \<open>
  Modelled from the spec: \<open>grid.translate\<close> is not among the sources. The spec: "moves one
  cell in the given heading; does not check bounds or obstacles". The numbering of the
  headings (0 east, 1 south, 2 west, 3 north, rows growing downwards) is the one
  \<open>examples/interactive_env.py\<close> draws the player with.
\<close>

definition translate :: "pos \<Rightarrow> int \<Rightarrow> pos" where
  "translate p d =
     (case p of (r, c) \<Rightarrow>
        if d = 0 then (r, c + 1)
        else if d = 1 then (r + 1, c)
        else if d = 2 then (r, c - 1)
        else (r - 1, c))"

text \<open>
  Modelled from the spec: \<open>grid.positions_equal\<close> is not among the sources. The spec:
  "per-entity-in-batch equality test", a boolean vector with one entry per entity of the
  batch.
\<close>

definition positions_equal :: "pos list \<Rightarrow> pos \<Rightarrow> bool list" where
  "positions_equal a b = map (\<lambda>p. p = b) a"

text \<open>
  Modelled from the spec: \<open>State.set_balls\<close> is not among the sources. It stores the batch
  under the ball kind, as an assignment to the dict does: an existing entry is replaced
  in place.
\<close>

definition set_balls :: "'k state \<Rightarrow> batch \<Rightarrow> 'k state" where
  "set_balls s balls = s\<lparr>entities := AList.update BALL balls (entities s)\<rparr>"

section \<open>\<open>navix/transitions.py\<close>\<close>

text \<open>
  The loop of \<open>_can_spawn_there\<close> over the kinds. \<open>positions_equal(...)[0]\<close> is the first
  entry of the vector, so \<open>obstructs\<close> is one boolean, and \<open>jnp.any\<close> of the negation of
  one boolean is that negation.
\<close>

fun spawn_loop :: "(kind \<times> batch) list \<Rightarrow> pos \<Rightarrow> bool \<Rightarrow> error + bool" where
  "spawn_loop [] p walkable = Inr walkable"
| "spawn_loop ((k, b) # es) p walkable =
     (case getitem (positions_equal (position b) p) 0 of
        Inl e \<Rightarrow> Inl e
      | Inr obstructs \<Rightarrow> spawn_loop es p (walkable \<and> \<not> obstructs))"

definition can_spawn_there :: "'k state \<Rightarrow> ball \<Rightarrow> error + bool" where
  "can_spawn_there s b =
     (case grid_at (grid s) (position b) of
        Inl e \<Rightarrow> Inl e
      | Inr v \<Rightarrow> spawn_loop (entities s) (position b) (v = 0))"

definition try_one_direction ::
  "'k prng \<Rightarrow> 'k state \<Rightarrow> ball \<Rightarrow> pos \<times> bool \<Rightarrow> 'k \<Rightarrow> error + ((pos \<times> bool) \<times> pos)" where
  "try_one_direction g s b carry k =
     (case carry of (current_pos, found_valid) \<Rightarrow>
        let d = random_randint g k 0 4;
            new_position = translate (position b) d;
            new_ball = b\<lparr>position := new_position\<rparr>
        in case can_spawn_there s new_ball of
             Inl e \<Rightarrow> Inl e
           | Inr can_move \<Rightarrow>
               let next_pos = (if found_valid then current_pos
                               else if can_move then new_position else current_pos);
                   next_valid = (found_valid \<or> can_move)
               in Inr ((next_pos, next_valid), next_pos))"

definition try_movements :: "'k prng \<Rightarrow> 'k state \<Rightarrow> ball \<Rightarrow> 'k \<Rightarrow> error + pos" where
  "try_movements g s b k =
     (let attempt_keys = random_split g k 3
      in case lax_scan (try_one_direction g s b) (position b, False) attempt_keys of
           Inl e \<Rightarrow> Inl e
         | Inr ((final_pos, _), _) \<Rightarrow> Inr final_pos)"

text \<open>
  \<open>jax.vmap\<close> maps over the leading axis of every field of the batch and of the keys; the
  axes must have one size (ValueError otherwise). Entity \<open>i\<close> of a batch:
\<close>

definition unbatch :: "batch \<Rightarrow> ball list" where
  "unbatch b =
     map (\<lambda>i. \<lparr>position = position b ! i, direction = direction b ! i, tag = tag b ! i\<rparr>)
       [0..<length (position b)]"

definition vmap2 :: "(ball \<Rightarrow> 'k \<Rightarrow> error + 'a) \<Rightarrow> batch \<Rightarrow> 'k list \<Rightarrow> error + 'a list" where
  "vmap2 f b ks =
     (let n = length (position b)
      in if length (direction b) \<noteq> n \<or> length (tag b) \<noteq> n \<or> length ks \<noteq> n
         then Inl ValueError
         else collect (map2 f (unbatch b) ks))"

definition update_balls :: "'k prng \<Rightarrow> 'k state \<Rightarrow> error + 'k state" where
  "update_balls g s =
     (case map_of (entities s) BALL of
        None \<Rightarrow> Inr s
      | Some balls \<Rightarrow>
          let keys = random_split g (key s) (length (position balls) + 1)
          in case vmap2 (try_movements g s) balls (drop 1 keys) of
               Inl e \<Rightarrow> Inl e
             | Inr new_position \<Rightarrow>
                 Inr ((set_balls s (balls\<lparr>position := new_position\<rparr>))\<lparr>key := keys ! 0\<rparr>))"

text \<open>
  The structure of a state, which \<open>jax.lax.switch\<close> compares between the branches: the
  shape of the grid, the kinds present and the lengths of the arrays of every batch (the
  key and the step counter have one shape always).
\<close>

definition state_structure :: "'k state \<Rightarrow> nat \<times> nat \<times> (kind \<times> nat \<times> nat \<times> nat) set" where
  "state_structure s =
     (nrows (grid s), ncols (grid s),
      set (map (\<lambda>kb. (fst kb, length (position (snd kb)), length (direction (snd kb)),
                        length (tag (snd kb)))) (entities s)))"

definition deterministic_transition ::
  "'k state \<Rightarrow> int \<Rightarrow> ('k state \<Rightarrow> 'k state) list \<Rightarrow> error + 'k state" where
  "deterministic_transition s a actions_set = lax_switch state_structure a actions_set s"

definition stochastic_transition ::
  "'k prng \<Rightarrow> 'k state \<Rightarrow> int \<Rightarrow> ('k state \<Rightarrow> 'k state) list \<Rightarrow> error + 'k state" where
  "stochastic_transition g s a actions_set =
     (case lax_switch state_structure a actions_set s of
        Inl e \<Rightarrow> Inl e
      | Inr s' \<Rightarrow> update_balls g s')"

section \<open>\<open>navix/environments/room.py\<close>\<close>

text \<open>
  \<open>grid.random_positions\<close> and \<open>grid.random_directions\<close> are not among the sources: they
  are parameters of the model. So are the fields of the environment that \<open>reset\<close> reads:
  the grid of its rendering cache and its observation function, which \<open>self.observation\<close>
  (a method of the base class, not among the sources either) applies to the state.
\<close>

record 'k grid_module =
  random_positions :: "'k \<Rightarrow> array2 \<Rightarrow> nat \<Rightarrow> error + pos list"
  random_directions :: "'k \<Rightarrow> nat \<Rightarrow> int list"

record ('k, 'o) room =
  cache_grid :: array2
  observation_fn :: "'k room_state \<Rightarrow> 'o"

definition reset ::
  "'k prng \<Rightarrow> 'k grid_module \<Rightarrow> ('k, 'o) room \<Rightarrow> 'k \<Rightarrow> error + ('k, 'o) timestep" where
  "reset g m self k0 =
     (let ks = random_split g k0 3;
          k = ks ! 0; k1 = ks ! 1; k2 = ks ! 2
      in case random_positions m k1 (cache_grid self) 2 of
           Inl e \<Rightarrow> Inl e
         | Inr positions \<Rightarrow>
             (case getitem positions 0 of
                Inl e \<Rightarrow> Inl e
              | Inr p0 \<Rightarrow>
                  (case getitem positions 1 of
                     Inl e \<Rightarrow> Inl e
                   | Inr p1 \<Rightarrow>
                       let d = random_directions m k2 1;
                           pl = \<lparr>position = p0, direction = d\<rparr>;
                           goal = \<lparr>position = [p1]\<rparr>;
                           st = \<lparr>room_state.key = k, player = pl, goals = goal\<rparr>
                       in Inr \<lparr>t = 0, observation = observation_fn self st, action = 0,
                                reward = 0, step_type = 0, state = st\<rparr>)))"

text \<open>
  Modelled from the spec: the contract of \<open>random_positions\<close>, which is not among the
  sources. The spec: "\<open>n\<close> distinct positions, sampled without replacement from walkable
  interior cells only; fails with an explicit insufficient free cells error if \<open>n\<close> exceeds
  the number of walkable cells".
\<close>

definition walkable_cells :: "array2 \<Rightarrow> pos set" where
  "walkable_cells gr =
     (\<lambda>(r, c). (int r, int c)) ` {(r, c). r < nrows gr \<and> c < ncols gr \<and> item gr r c = 0}"

definition random_positions_contract :: "'k grid_module \<Rightarrow> bool" where
  "random_positions_contract m =
     (\<forall>k gr n.
        if n \<le> card (walkable_cells gr)
        then \<exists>ps. random_positions m k gr n = Inr ps \<and> length ps = n \<and> distinct ps
                  \<and> set ps \<subseteq> walkable_cells gr
        else random_positions m k gr n = Inl InsufficientFreeCells)"

section \<open>Vocabulary of the properties\<close>

text \<open>
  A state is indexable when its arrays can be indexed: the grid has no axis of size 0 and
  no batch is empty. A batch is aligned when its fields have one length. \<open>cell\<close> is the
  grid value that \<open>state.grid[tuple(position)]\<close> reads.
\<close>

definition indexable :: "'k state \<Rightarrow> bool" where
  "indexable s \<longleftrightarrow>
     nrows (grid s) \<noteq> 0 \<and> ncols (grid s) \<noteq> 0 \<and> (\<forall>kb \<in> set (entities s). position (snd kb) \<noteq> [])"

definition aligned :: "batch \<Rightarrow> bool" where
  "aligned b \<longleftrightarrow> length (direction b) = length (position b) \<and> length (tag b) = length (position b)"

definition cell :: "array2 \<Rightarrow> pos \<Rightarrow> int" where
  "cell gr p = item gr (jnp_index (nrows gr) (fst p)) (jnp_index (ncols gr) (snd p))"

text \<open>
  Attempt \<open>j\<close> (0, 1, 2) of a ball with sub-seed \<open>k\<close> proposes \<open>candidate g b k j\<close>; the
  sub-seed of ball \<open>i\<close> is \<open>ball_key g s balls i\<close>; \<open>settle\<close> is the first candidate that the
  occupancy check accepts, or the ball's own position.
\<close>

definition candidate :: "'k prng \<Rightarrow> ball \<Rightarrow> 'k \<Rightarrow> nat \<Rightarrow> pos" where
  "candidate g b k j = translate (position b) (random_randint g (random_split g k 3 ! j) 0 4)"

definition ball_key :: "'k prng \<Rightarrow> 'k state \<Rightarrow> batch \<Rightarrow> nat \<Rightarrow> 'k" where
  "ball_key g s balls i = drop 1 (random_split g (key s) (length (position balls) + 1)) ! i"

definition settle :: "'k prng \<Rightarrow> 'k state \<Rightarrow> ball \<Rightarrow> 'k \<Rightarrow> pos" where
  "settle g s b k =
     (if can_spawn_there s (b\<lparr>position := candidate g b k 0\<rparr>) = Inr True then candidate g b k 0
      else if can_spawn_there s (b\<lparr>position := candidate g b k 1\<rparr>) = Inr True then candidate g b k 1
      else if can_spawn_there s (b\<lparr>position := candidate g b k 2\<rparr>) = Inr True then candidate g b k 2
      else position b)"

text \<open>
  The positions of the balls after the pass, and the state that the pass returns on an
  indexable state with an aligned ball batch.
\<close>

definition moved :: "'k prng \<Rightarrow> 'k state \<Rightarrow> batch \<Rightarrow> pos list" where
  "moved g s balls =
     map (\<lambda>i. settle g s (unbatch balls ! i) (ball_key g s balls i)) [0..<length (position balls)]"

definition pass_result :: "'k prng \<Rightarrow> 'k state \<Rightarrow> batch \<Rightarrow> 'k state" where
  "pass_result g s balls =
     (set_balls s (balls\<lparr>position := moved g s balls\<rparr>))
     \<lparr>key := random_split g (key s) (length (position balls) + 1) ! 0\<rparr>"

text \<open>
  Two states are the same but for the seed when they agree once the key of both is
  overwritten; an action is blind to the seed when it takes states that differ only in the
  seed to states that differ only in the seed.
\<close>

definition erase_key :: "'k \<Rightarrow> 'k state \<Rightarrow> 'k state" where
  "erase_key k0 s = s\<lparr>key := k0\<rparr>"

definition seed_blind :: "('k state \<Rightarrow> 'k state) \<Rightarrow> bool" where
  "seed_blind f \<longleftrightarrow> (\<forall>s k k0. erase_key k0 (f (s\<lparr>key := k\<rparr>)) = erase_key k0 (f s))"

text \<open>
  The occupancy invariant. \<open>blocking\<close> tells which kinds block a cell; the positions of
  the entities of those kinds must be distinct, and no entity of any kind may stand on a
  cell whose grid value is not 0.
\<close>

definition positions_of :: "(kind \<Rightarrow> bool) \<Rightarrow> 'k state \<Rightarrow> pos list" where
  "positions_of blocking s =
     concat (map (\<lambda>kb. position (snd kb)) (filter (\<lambda>kb. blocking (fst kb)) (entities s)))"

definition off_obstacles :: "'k state \<Rightarrow> bool" where
  "off_obstacles s \<longleftrightarrow>
     (\<forall>kb \<in> set (entities s). \<forall>p \<in> set (position (snd kb)). grid_at (grid s) p = Inr 0)"

definition occupancy_invariant :: "(kind \<Rightarrow> bool) \<Rightarrow> 'k state \<Rightarrow> bool" where
  "occupancy_invariant blocking s \<longleftrightarrow> distinct (positions_of blocking s) \<and> off_obstacles s"

text \<open>
  What the stochastic mover keeps of the invariant. No entity stands on an obstacle cell,
  the blocking entities other than balls stand on distinct cells, and no ball stands on the
  cell of the first entity of a blocking batch of another kind (the entity, for a kind
  stored as a batch of one).
\<close>

definition balls_clear :: "(kind \<Rightarrow> bool) \<Rightarrow> 'k state \<Rightarrow> bool" where
  "balls_clear blocking s \<longleftrightarrow>
     (\<forall>kb \<in> set (entities s). \<forall>kb' \<in> set (entities s).
        fst kb = BALL \<and> fst kb' \<noteq> BALL \<and> blocking (fst kb') \<and> position (snd kb') \<noteq> []
        \<longrightarrow> hd (position (snd kb')) \<notin> set (position (snd kb)))"

definition mover_invariant :: "(kind \<Rightarrow> bool) \<Rightarrow> 'k state \<Rightarrow> bool" where
  "mover_invariant blocking s \<longleftrightarrow>
     off_obstacles s \<and> distinct (positions_of (\<lambda>k. blocking k \<and> k \<noteq> BALL) s)
     \<and> balls_clear blocking s"

text \<open>
  Modelled from the spec: \<open>Environment.step\<close> and the \<open>reset\<close> of the environments with
  balls are not among the sources. A reset places the entities on distinct walkable cells
  (a state that satisfies the invariant); every step applies the default transition, the
  stochastic one, with the action given. \<open>run_steps\<close> is the state after a sequence of
  steps.
\<close>

fun run_steps ::
  "'k prng \<Rightarrow> ('k state \<Rightarrow> 'k state) list \<Rightarrow> 'k state \<Rightarrow> int list \<Rightarrow> error + 'k state" where
  "run_steps g actions_set s [] = Inr s"
| "run_steps g actions_set s (a # as) =
     (case stochastic_transition g s a actions_set of
        Inl e \<Rightarrow> Inl e
      | Inr s' \<Rightarrow> run_steps g actions_set s' as)"

section \<open>Example inputs\<close>

text \<open>A small generator, a bordered room, and states and actions to evaluate the code on.\<close>

definition example_prng :: "nat prng" where
  "example_prng = \<lparr>subkey = (\<lambda>k n i. k * n + i + 1), bits = (\<lambda>k. k)\<rparr>"

definition example_room :: "nat \<Rightarrow> nat \<Rightarrow> array2" where
  "example_room h w =
     \<lparr>nrows = h, ncols = w,
      item = (\<lambda>r c. if r = 0 \<or> c = 0 \<or> r + 1 = h \<or> c + 1 = w then 1 else 0)\<rparr>"

definition ball_pair :: batch where
  "ball_pair = \<lparr>position = [(1, 1), (1, 2)], direction = [0, 0], tag = [0, 0]\<rparr>"

definition two_balls :: "nat state" where
  "two_balls =
     \<lparr>key = 0, grid = example_room 5 5, entities = [(BALL, ball_pair)], steps = 0\<rparr>"

definition boxed_ball :: "nat state" where
  "boxed_ball =
     \<lparr>key = 0, grid = example_room 3 3,
      entities = [(BALL, \<lparr>position = [(1, 1)], direction = [0], tag = [0]\<rparr>)],
      steps = 0\<rparr>"

definition one_ball :: "nat state" where
  "one_ball =
     \<lparr>key = 0, grid = example_room 5 5,
      entities = [(PLAYER, \<lparr>position = [(3, 3)], direction = [0], tag = [0]\<rparr>),
                  (BALL, \<lparr>position = [(1, 1)], direction = [0], tag = [0]\<rparr>)],
      steps = 0\<rparr>"

definition player_only :: "nat state" where
  "player_only =
     \<lparr>key = 0, grid = example_room 5 5,
      entities = [(PLAYER, \<lparr>position = [(3, 3)], direction = [0], tag = [0]\<rparr>)],
      steps = 0\<rparr>"

definition spawn_ball :: "'k state \<Rightarrow> 'k state" where
  "spawn_ball s = set_balls s \<lparr>position = [(1, 1)], direction = [0], tag = [0]\<rparr>"

definition seed_to_steps :: "nat state \<Rightarrow> nat state" where
  "seed_to_steps s = s\<lparr>steps := int (key s)\<rparr>"

definition corridor :: "nat state" where
  "corridor =
     \<lparr>key = 0, grid = example_room 3 5,
      entities = [(BALL, \<lparr>position = [(1, 1), (1, 3)], direction = [0, 0], tag = [0, 0]\<rparr>)],
      steps = 0\<rparr>"

definition collided :: "nat state" where
  "collided =
     \<lparr>key = 1, grid = example_room 3 5,
      entities = [(BALL, \<lparr>position = [(1, 2), (1, 2)], direction = [0, 0], tag = [0, 0]\<rparr>)],
      steps = 0\<rparr>"

text \<open>
  A sampler that fulfils the contract of \<open>random_positions\<close> (the first \<open>n\<close> walkable cells
  in row order), and a room with a 2 by 2 interior.
\<close>

definition free_cells :: "array2 \<Rightarrow> pos list" where
  "free_cells gr =
     map (\<lambda>rc. (int (fst rc), int (snd rc)))
       (filter (\<lambda>rc. item gr (fst rc) (snd rc) = 0) (List.product [0..<nrows gr] [0..<ncols gr]))"

definition example_sampler :: "nat grid_module" where
  "example_sampler =
     \<lparr>random_positions = (\<lambda>k gr n. if n \<le> length (free_cells gr) then Inr (take n (free_cells gr))
                                   else Inl InsufficientFreeCells),
      random_directions = (\<lambda>k n. replicate n 0)\<rparr>"

definition example_env :: "(nat, unit) room" where
  "example_env = \<lparr>cache_grid = example_room 4 4, observation_fn = (\<lambda>st. ())\<rparr>"

definition moved_ball :: "nat state" where
  "moved_ball =
     \<lparr>key = 1, grid = example_room 5 5,
      entities = [(PLAYER, \<lparr>position = [(3, 3)], direction = [0], tag = [0]\<rparr>),
                  (BALL, \<lparr>position = [(1, 2)], direction = [0], tag = [0]\<rparr>)],
      steps = 0\<rparr>"

definition tiny_env :: "(nat, unit) room" where
  "tiny_env = \<lparr>cache_grid = example_room 3 3, observation_fn = (\<lambda>st. ())\<rparr>"

definition tick :: "'k state \<Rightarrow> 'k state" where
  "tick s = s\<lparr>steps := steps s + 1\<rparr>"

section \<open>Properties of the helpers\<close>

lemma getitem_first: "getitem xs 0 = (case xs of [] \<Rightarrow> Inl IndexError | x # _ \<Rightarrow> Inr x)"
  by (cases xs) (simp_all add: getitem_def jnp_index_def)

lemma spawn_loop_eq:
  "spawn_loop es p w =
     (if \<exists>kb \<in> set es. position (snd kb) = [] then Inl IndexError
      else Inr (w \<and> (\<forall>kb \<in> set es. hd (position (snd kb)) \<noteq> p)))"
proof (induction es p w rule: spawn_loop.induct)
  case (1 p walkable)
  show ?case by simp
next
  case (2 k b es p walkable)
  show ?case
  proof (cases "position b")
    case Nil
    then show ?thesis by (simp add: getitem_first positions_equal_def)
  next
    case (Cons q qs)
    then show ?thesis using 2 by (auto simp add: getitem_first positions_equal_def)
  qed
qed

lemma can_spawn_there_eq:
  "can_spawn_there s b =
     (if indexable s
      then Inr (cell (grid s) (position b) = 0 \<and> (\<forall>kb \<in> set (entities s). hd (position (snd kb)) \<noteq> position b))
      else Inl IndexError)"
  by (cases "position b")
     (auto simp add: can_spawn_there_def grid_at_def spawn_loop_eq indexable_def cell_def)

lemma random_split_3: "random_split g k 3 = [subkey g k 3 0, subkey g k 3 1, subkey g k 3 2]"
  by (simp add: random_split_def upt_rec numeral_2_eq_2)

lemma try_one_direction_eq:
  "try_one_direction g s b (cur, found) k =
     (if indexable s
      then (let c = translate (position b) (random_randint g k 0 4);
                ok = (can_spawn_there s (b\<lparr>position := c\<rparr>) = Inr True);
                nxt = (if found then cur else if ok then c else cur)
            in Inr ((nxt, found \<or> ok), nxt))
      else Inl IndexError)"
  by (simp add: try_one_direction_def can_spawn_there_eq Let_def)

lemma try_movements_eq:
  "try_movements g s b k =
     (if indexable s
      then Inr (if can_spawn_there s (b\<lparr>position := candidate g b k 0\<rparr>) = Inr True then candidate g b k 0
                else if can_spawn_there s (b\<lparr>position := candidate g b k 1\<rparr>) = Inr True then candidate g b k 1
                else if can_spawn_there s (b\<lparr>position := candidate g b k 2\<rparr>) = Inr True then candidate g b k 2
                else position b)
      else Inl IndexError)"
  by (simp add: try_movements_def random_split_3 try_one_direction_eq candidate_def Let_def)

lemma collect_map_Inr: "collect (map (\<lambda>x. Inr (f x)) xs) = Inr (map f xs)"
  by (induction xs) simp_all


lemma try_movements_settle:
  "try_movements g s b k = (if indexable s then Inr (settle g s b k) else Inl IndexError)"
  by (simp add: try_movements_eq settle_def)

lemma map2_nth:
  "length xs = length ys \<Longrightarrow> map2 f xs ys = map (\<lambda>i. f (xs ! i) (ys ! i)) [0..<length xs]"
  by (rule nth_equalityI) simp_all

lemma length_unbatch: "length (unbatch b) = length (position b)"
  by (simp add: unbatch_def)

lemma length_random_split: "length (random_split g k n) = n"
  by (simp add: random_split_def)

lemma vmap2_try_movements:
  assumes "indexable s" and "aligned balls"
  shows "vmap2 (try_movements g s) balls (drop 1 (random_split g (key s) (length (position balls) + 1)))
         = Inr (map (\<lambda>i. settle g s (unbatch balls ! i) (ball_key g s balls i)) [0..<length (position balls)])"
proof -
  let ?ks = "drop 1 (random_split g (key s) (length (position balls) + 1))"
  have len: "length (unbatch balls) = length ?ks"
    by (simp add: length_unbatch length_random_split)
  have "map2 (try_movements g s) (unbatch balls) ?ks
        = map (\<lambda>i. Inr (settle g s (unbatch balls ! i) (ball_key g s balls i))) [0..<length (position balls)]"
    using assms(1) by (simp only: map2_nth [OF len] length_unbatch try_movements_settle ball_key_def if_True)
  then have "collect (map2 (try_movements g s) (unbatch balls) ?ks)
        = Inr (map (\<lambda>i. settle g s (unbatch balls ! i) (ball_key g s balls i)) [0..<length (position balls)])"
    by (simp only: collect_map_Inr)
  moreover have "length ?ks = length (position balls)"
    by (simp add: length_random_split)
  ultimately show ?thesis
    using assms(2) by (simp only: vmap2_def aligned_def Let_def simp_thms if_False)
qed

lemma update_balls_eq:
  assumes "map_of (entities s) BALL = Some balls" and "indexable s" and "aligned balls"
  shows "update_balls g s =
           Inr ((set_balls s (balls\<lparr>position :=
                   map (\<lambda>i. settle g s (unbatch balls ! i) (ball_key g s balls i)) [0..<length (position balls)]\<rparr>))
                \<lparr>key := random_split g (key s) (length (position balls) + 1) ! 0\<rparr>)"
  unfolding update_balls_def Let_def
  by (simp only: assms(1) option.case vmap2_try_movements [OF assms(2,3)] sum.case)

lemma position_unbatch: "i < length (position b) \<Longrightarrow> position (unbatch b ! i) = position b ! i"
  by (simp add: unbatch_def)

lemma map_of_set_balls: "map_of (entities ((set_balls s b)\<lparr>key := k\<rparr>)) BALL = Some b"
  by (simp add: set_balls_def update_conv')

lemma randint_headings: "random_randint g k 0 4 \<in> {0, 1, 2, 3}"
proof -
  have "0 \<le> int (bits g k) mod 4" and "int (bits g k) mod 4 < 4" by simp_all
  then show ?thesis unfolding random_randint_def by auto
qed

lemma candidate_heading: "\<exists>d \<in> {0, 1, 2, 3}. candidate g b k j = translate (position b) d"
  unfolding candidate_def by (rule bexI [OF refl randint_headings])

lemma settle_cases:
  "settle g s b k = position b \<or> (\<exists>j<3. settle g s b k = candidate g b k j
      \<and> can_spawn_there s (b\<lparr>position := candidate g b k j\<rparr>) = Inr True)"
proof -
  have "(0::nat) < 3" "(1::nat) < 3" "(2::nat) < 3" by simp_all
  then show ?thesis unfolding settle_def by metis
qed

lemma update_balls_pass_result:
  assumes "map_of (entities s) BALL = Some balls" and "indexable s" and "aligned balls"
  shows "update_balls g s = Inr (pass_result g s balls)"
  unfolding pass_result_def moved_def by (rule update_balls_eq [OF assms])

lemma pass_result_balls:
  "map_of (entities (pass_result g s balls)) BALL = Some (balls\<lparr>position := moved g s balls\<rparr>)"
  unfolding pass_result_def by (rule map_of_set_balls)

lemma length_moved: "length (moved g s balls) = length (position balls)"
  by (simp add: moved_def)

lemma moved_nth:
  "i < length (position balls) \<Longrightarrow>
     moved g s balls ! i = settle g s (unbatch balls ! i) (ball_key g s balls i)"
  by (simp add: moved_def)

lemma accepted_indexable: "can_spawn_there s b = Inr v \<Longrightarrow> indexable s"
  by (simp add: can_spawn_there_eq split: if_splits)

lemma ball_key_subkey:
  "i < length (position balls) \<Longrightarrow>
     ball_key g s balls i = subkey g (key s) (length (position balls) + 1) (i + 1)"
  by (simp add: ball_key_def random_split_def del: upt_Suc)

lemma pass_result_frame:
  "grid (pass_result g s balls) = grid s"
  "steps (pass_result g s balls) = steps s"
  "entities (pass_result g s balls) = AList.update BALL (balls\<lparr>position := moved g s balls\<rparr>) (entities s)"
  "key (pass_result g s balls) = random_split g (key s) (length (position balls) + 1) ! 0"
  by (simp_all add: pass_result_def set_balls_def)

lemma settle_step:
  "settle g s b k = position b \<or> (\<exists>d \<in> {0, 1, 2, 3}. settle g s b k = translate (position b) d)"
proof -
  have "settle g s b k = position b \<or> (\<exists>j. settle g s b k = candidate g b k j)"
    unfolding settle_def by auto
  then show ?thesis
    using candidate_heading [of g b k] by metis
qed

lemma two_balls_present: "map_of (entities two_balls) BALL = Some ball_pair"
  by (simp add: two_balls_def)

lemma two_balls_indexable: "indexable two_balls"
  by (simp add: indexable_def two_balls_def ball_pair_def example_room_def)

lemma ball_pair_aligned: "aligned ball_pair"
  by (simp add: aligned_def ball_pair_def)

lemma int32_id: "- 2147483648 \<le> i \<Longrightarrow> i < 2147483648 \<Longrightarrow> int32 i = i"
  by (simp add: int32_def)

lemma switch_index_less: "0 < n \<Longrightarrow> switch_index a n < n"
  by (simp add: switch_index_def)

lemma switch_index_one: "switch_index a (Suc 0) = 0"
  by (simp add: switch_index_def)

lemma lax_switch_eq:
  "lax_switch tree a branches x =
     (if branches = [] then Inl ValueError
      else if length branches \<noteq> 1 \<and> (\<exists>f \<in> set branches. tree (f x) \<noteq> tree (hd branches x))
      then Inl TypeError
      else Inr ((branches ! switch_index a (length branches)) x))"
  by (cases branches) (auto simp add: lax_switch_def switch_index_one)

lemma lax_switch_Inr:
  assumes "lax_switch tree a branches x = Inr y"
  shows "\<exists>f \<in> set branches. y = f x"
proof -
  from assms have ne: "branches \<noteq> []" and y: "y = (branches ! switch_index a (length branches)) x"
    by (simp_all add: lax_switch_eq split: if_splits)
  from ne have "switch_index a (length branches) < length branches"
    by (simp add: switch_index_less)
  then have "branches ! switch_index a (length branches) \<in> set branches"
    by (rule nth_mem)
  with y show ?thesis by auto
qed

lemma state_structure_erase_key: "state_structure (erase_key k0 s) = state_structure s"
  by (simp add: state_structure_def erase_key_def)

lemma seed_blind_structure:
  assumes "seed_blind f"
  shows "state_structure (f (s\<lparr>key := k\<rparr>)) = state_structure (f s)"
proof -
  from assms have "erase_key k (f (s\<lparr>key := k\<rparr>)) = erase_key k (f s)"
    unfolding seed_blind_def by (elim allE)
  from arg_cong [OF this, of state_structure] show ?thesis
    by (simp only: state_structure_erase_key)
qed

lemma collect_Inr: "collect rs = Inr xs \<Longrightarrow> rs = map Inr xs"
  by (induction rs arbitrary: xs) (auto split: sum.splits)

lemma grid_at_cell: "indexable s \<Longrightarrow> grid_at (grid s) p = Inr (cell (grid s) p)"
  by (cases p) (simp add: grid_at_def cell_def indexable_def)

lemma try_movements_lands:
  assumes "try_movements g s b k = Inr p"
  shows "p = position b \<or> grid_at (grid s) p = Inr 0"
proof -
  from assms have ix: "indexable s" and p: "p = settle g s b k"
    by (simp_all add: try_movements_settle split: if_splits)
  from settle_cases [of g s b k] show ?thesis
  proof
    assume "settle g s b k = position b"
    with p show ?thesis by simp
  next
    assume "\<exists>j<3. settle g s b k = candidate g b k j
      \<and> can_spawn_there s (b\<lparr>position := candidate g b k j\<rparr>) = Inr True"
    then obtain j where "p = candidate g b k j"
      and "can_spawn_there s (b\<lparr>position := candidate g b k j\<rparr>) = Inr True"
      using p by auto
    then have "cell (grid s) p = 0"
      using ix by (simp add: can_spawn_there_eq)
    with ix show ?thesis by (simp add: grid_at_cell)
  qed
qed

lemma vmap2_lands:
  assumes "vmap2 (try_movements g s) balls ks = Inr new" and "p \<in> set new"
  shows "p \<in> set (position balls) \<or> grid_at (grid s) p = Inr 0"
proof -
  from assms(1) have len: "length (unbatch balls) = length ks"
    and c: "collect (map2 (try_movements g s) (unbatch balls) ks) = Inr new"
    by (simp_all add: vmap2_def Let_def length_unbatch split: if_splits)
  from collect_Inr [OF c] have m: "map (\<lambda>i. try_movements g s (unbatch balls ! i) (ks ! i))
      [0..<length (position balls)] = map Inr new"
    by (simp add: map2_nth [OF len] length_unbatch)
  from arg_cong [OF m, of length] have n: "length new = length (position balls)"
    by simp
  from assms(2) obtain i where i: "i < length new" and pi: "new ! i = p"
    by (auto simp add: in_set_conv_nth)
  from arg_cong [OF m, of "\<lambda>xs. xs ! i"] i n
  have "try_movements g s (unbatch balls ! i) (ks ! i) = Inr (new ! i)"
    by simp
  from try_movements_lands [OF this] i n pi show ?thesis
    by (auto simp add: position_unbatch)
qed

lemma set_update_subset: "set (AList.update k v al) \<subseteq> insert (k, v) (set al)"
  by (induction al) auto

lemma update_balls_off_obstacles:
  assumes "off_obstacles s" and "update_balls g s = Inr s'"
  shows "off_obstacles s'"
proof (cases "map_of (entities s) BALL")
  case None
  with assms show ?thesis by (simp add: update_balls_def)
next
  case (Some balls)
  let ?ks = "drop 1 (random_split g (key s) (length (position balls) + 1))"
  from assms(2) Some obtain new where v: "vmap2 (try_movements g s) balls ?ks = Inr new"
    and s': "s' = (set_balls s (balls\<lparr>position := new\<rparr>))\<lparr>key := random_split g (key s) (length (position balls) + 1) ! 0\<rparr>"
    by (auto simp add: update_balls_def Let_def split: sum.splits)
  from Some have old: "(BALL, balls) \<in> set (entities s)"
    by (rule map_of_SomeD)
  have new_ok: "grid_at (grid s) p = Inr 0" if "p \<in> set new" for p
    using vmap2_lands [OF v that] old assms(1) by (auto simp add: off_obstacles_def)
  have g: "grid s' = grid s" and e: "entities s' = AList.update BALL (balls\<lparr>position := new\<rparr>) (entities s)"
    unfolding s' by (simp_all add: set_balls_def)
  show ?thesis
    unfolding off_obstacles_def g e
  proof (intro ballI)
    fix kb p
    assume kb: "kb \<in> set (AList.update BALL (balls\<lparr>position := new\<rparr>) (entities s))"
      and p: "p \<in> set (position (snd kb))"
    from kb set_update_subset have "kb = (BALL, balls\<lparr>position := new\<rparr>) \<or> kb \<in> set (entities s)"
      by fastforce
    then show "grid_at (grid s) p = Inr 0"
    proof
      assume "kb = (BALL, balls\<lparr>position := new\<rparr>)"
      with p new_ok show ?thesis by simp
    next
      assume "kb \<in> set (entities s)"
      with p assms(1) show ?thesis by (simp add: off_obstacles_def)
    qed
  qed
qed


lemma corridor_invariant: "occupancy_invariant (\<lambda>k. True) corridor"
  by (simp add: occupancy_invariant_def positions_of_def off_obstacles_def corridor_def
      grid_at_def example_room_def jnp_index_def)

lemma corridor_run: "run_steps example_prng [id] corridor [0] = Inr collided"
proof -
  let ?balls = "\<lparr>position = [(1, 1), (1, 3)], direction = [0, 0], tag = [0, 0]\<rparr> :: batch"
  have present: "map_of (entities corridor) BALL = Some ?balls"
    by (simp add: corridor_def)
  have ix: "indexable corridor"
    by (simp add: indexable_def corridor_def example_room_def)
  have al: "aligned ?balls" by (simp add: aligned_def)
  have k0: "ball_key example_prng corridor ?balls 0 = 2"
    and k1: "ball_key example_prng corridor ?balls (Suc 0) = 3"
    by (simp_all add: ball_key_def random_split_def example_prng_def corridor_def)
  have u0: "unbatch ?balls ! 0 = \<lparr>position = (1, 1), direction = 0, tag = 0\<rparr>"
    and u1: "unbatch ?balls ! Suc 0 = \<lparr>position = (1, 3), direction = 0, tag = 0\<rparr>"
    by (simp_all add: unbatch_def)
  have m0: "settle example_prng corridor \<lparr>position = (1, 1), direction = 0, tag = 0\<rparr> 2 = (1, 2)"
    by (simp add: settle_def candidate_def translate_def random_randint_def random_split_def
        example_prng_def can_spawn_there_eq indexable_def cell_def corridor_def example_room_def
        jnp_index_def)
  have m1: "settle example_prng corridor \<lparr>position = (1, 3), direction = 0, tag = 0\<rparr> 3 = (1, 2)"
    by (simp add: settle_def candidate_def translate_def random_randint_def random_split_def
        example_prng_def can_spawn_there_eq indexable_def cell_def corridor_def example_room_def
        jnp_index_def)
  have "moved example_prng corridor ?balls = [(1, 2), (1, 2)]"
    by (simp add: moved_def upt_rec u0 u1 k0 k1 m0 m1)
  then have "pass_result example_prng corridor ?balls = collided"
    by (simp add: pass_result_def set_balls_def corridor_def collided_def random_split_def
        example_prng_def)
  with update_balls_pass_result [OF present ix al, of example_prng]
  show ?thesis
    by (simp add: stochastic_transition_def lax_switch_def)
qed

lemma collided_overlap: "\<not> occupancy_invariant (\<lambda>k. k = BALL) collided"
  by (simp add: occupancy_invariant_def positions_of_def collided_def)

lemma set_free_cells: "set (free_cells gr) = walkable_cells gr"
  by (auto simp add: free_cells_def walkable_cells_def image_iff)

lemma distinct_free_cells: "distinct (free_cells gr)"
  unfolding free_cells_def
  by (intro iffD2 [OF distinct_map] conjI distinct_filter distinct_product distinct_upt inj_onI)
     (auto simp add: prod_eq_iff)

lemma card_walkable_cells: "card (walkable_cells gr) = length (free_cells gr)"
  using distinct_card [OF distinct_free_cells, of gr] by (simp add: set_free_cells)

lemma example_sampler_contract: "random_positions_contract example_sampler"
  unfolding random_positions_contract_def card_walkable_cells
  by (auto simp add: example_sampler_def distinct_free_cells set_free_cells [symmetric]
      dest: in_set_takeD)

lemma getitem_pair: "getitem [a, b] 0 = Inr a" "getitem [a, b] 1 = Inr b"
  by (simp_all add: getitem_def jnp_index_def)

lemma update_balls_returns:
  assumes "update_balls g s = Inr s'" and "map_of (entities s) BALL = Some balls"
  shows "s' = pass_result g s balls" and "aligned balls"
    and "position balls \<noteq> [] \<Longrightarrow> indexable s"
proof -
  let ?n = "length (position balls)"
  let ?ks = "drop 1 (random_split g (key s) (?n + 1))"
  from assms obtain new where v: "vmap2 (try_movements g s) balls ?ks = Inr new"
    and s': "s' = (set_balls s (balls\<lparr>position := new\<rparr>))\<lparr>key := random_split g (key s) (?n + 1) ! 0\<rparr>"
    by (auto simp add: update_balls_def Let_def split: sum.splits)
  from v show al: "aligned balls"
    by (simp add: vmap2_def Let_def aligned_def split: if_splits)
  from v have len: "length (unbatch balls) = length ?ks"
    and c: "collect (map2 (try_movements g s) (unbatch balls) ?ks) = Inr new"
    by (simp_all add: vmap2_def Let_def length_unbatch split: if_splits)
  from collect_Inr [OF c] have m: "map (\<lambda>i. try_movements g s (unbatch balls ! i) (?ks ! i))
      [0..<?n] = map Inr new"
    by (simp only: map2_nth [OF len] length_unbatch)
  from arg_cong [OF m, of length] have n: "length new = ?n"
    by simp
  have each: "indexable s \<and> new ! i = settle g s (unbatch balls ! i) (ball_key g s balls i)"
    if "i < ?n" for i
  proof -
    from arg_cong [OF m, of "\<lambda>xs. xs ! i"] that n
    have "try_movements g s (unbatch balls ! i) (?ks ! i) = Inr (new ! i)"
      by simp
    then show ?thesis
      by (simp add: try_movements_settle ball_key_def split: if_splits)
  qed
  have "new = moved g s balls"
    by (rule nth_equalityI) (simp_all add: n length_moved moved_nth each)
  with s' show "s' = pass_result g s balls"
    by (simp add: pass_result_def)
  show "indexable s" if "position balls \<noteq> []"
    using each [of 0] that by simp
qed

lemma update_balls_returns_balls:
  assumes "update_balls g s = Inr s'" and "map_of (entities s) BALL = Some balls"
  shows "map_of (entities s') BALL = Some (balls\<lparr>position := moved g s balls\<rparr>)"
  unfolding update_balls_returns(1) [OF assms] by (rule pass_result_balls)

lemma settle_rejected:
  assumes "\<forall>j<3. can_spawn_there s (b\<lparr>position := candidate g b k j\<rparr>) = Inr False"
  shows "settle g s b k = position b"
proof -
  have "(0::nat) < 3" "(1::nat) < 3" "(2::nat) < 3" by simp_all
  with assms have "can_spawn_there s (b\<lparr>position := candidate g b k 0\<rparr>) = Inr False"
    and "can_spawn_there s (b\<lparr>position := candidate g b k 1\<rparr>) = Inr False"
    and "can_spawn_there s (b\<lparr>position := candidate g b k 2\<rparr>) = Inr False"
    by blast+
  then show ?thesis by (simp add: settle_def)
qed

lemma settle_first_passing:
  assumes "j < 3"
    and "can_spawn_there s (b\<lparr>position := candidate g b k j\<rparr>) = Inr True"
    and "\<forall>j'<j. can_spawn_there s (b\<lparr>position := candidate g b k j'\<rparr>) = Inr False"
  shows "settle g s b k = candidate g b k j"
proof -
  have rej: "can_spawn_there s (b\<lparr>position := candidate g b k j'\<rparr>) = Inr False" if "j' < j" for j'
    using assms(3) that by blast
  consider "j = 0" | "j = 1" | "j = 2"
    using assms(1) by linarith
  then show ?thesis
  proof cases
    case 1
    with assms(2) show ?thesis by (simp add: settle_def)
  next
    case 2
    with assms(2) rej [of 0] show ?thesis by (simp add: settle_def)
  next
    case 3
    with assms(2) rej [of 0] rej [of 1] show ?thesis by (simp add: settle_def)
  qed
qed

lemma distinct_concat_filter:
  "distinct (concat (map f xs)) \<Longrightarrow> distinct (concat (map f (filter Q xs)))"
  by (induction xs) auto

lemma distinct_concat_disjoint:
  "distinct (concat (map f xs)) \<Longrightarrow> x \<in> set xs \<Longrightarrow> y \<in> set xs \<Longrightarrow> x \<noteq> y
   \<Longrightarrow> set (f x) \<inter> set (f y) = {}"
  by (induction xs) auto

lemma positions_of_without_balls:
  "positions_of (\<lambda>k. blocking k \<and> k \<noteq> BALL) s =
     concat (map (\<lambda>kb. position (snd kb))
       (filter (\<lambda>kb. fst kb \<noteq> BALL) (filter (\<lambda>kb. blocking (fst kb)) (entities s))))"
  by (simp add: positions_of_def conj_commute)

lemma occupancy_mover_invariant:
  assumes "occupancy_invariant blocking s" and "blocking BALL"
  shows "mover_invariant blocking s"
proof -
  let ?es = "filter (\<lambda>kb. blocking (fst kb)) (entities s)"
  let ?f = "\<lambda>kb :: kind \<times> batch. position (snd kb)"
  from assms(1) have d: "distinct (concat (map ?f ?es))" and off: "off_obstacles s"
    by (simp_all add: occupancy_invariant_def positions_of_def)
  from d have "distinct (positions_of (\<lambda>k. blocking k \<and> k \<noteq> BALL) s)"
    unfolding positions_of_without_balls by (rule distinct_concat_filter)
  moreover have "balls_clear blocking s"
    unfolding balls_clear_def
  proof (intro ballI impI)
    fix kb kb'
    assume kb: "kb \<in> set (entities s)" and kb': "kb' \<in> set (entities s)"
      and h: "fst kb = BALL \<and> fst kb' \<noteq> BALL \<and> blocking (fst kb') \<and> position (snd kb') \<noteq> []"
    from kb kb' h assms(2) have "kb \<in> set ?es" and "kb' \<in> set ?es" and "kb \<noteq> kb'"
      by auto
    from distinct_concat_disjoint [OF d this] have "set (?f kb) \<inter> set (?f kb') = {}" .
    moreover from h have "hd (position (snd kb')) \<in> set (position (snd kb'))"
      by simp
    ultimately show "hd (position (snd kb')) \<notin> set (position (snd kb))"
      by auto
  qed
  ultimately show ?thesis using off by (simp add: mover_invariant_def)
qed

lemma filter_update_other:
  "\<not> Q k \<Longrightarrow> filter (\<lambda>kb. Q (fst kb)) (AList.update k v al) = filter (\<lambda>kb. Q (fst kb)) al"
  by (induction al) auto

lemma moved_lands:
  assumes "p \<in> set (moved g s balls)"
  shows "p \<in> set (position balls)
         \<or> (grid_at (grid s) p = Inr 0 \<and> (\<forall>kb \<in> set (entities s). hd (position (snd kb)) \<noteq> p))"
proof -
  from assms obtain i where i: "i < length (position balls)"
    and p: "p = settle g s (unbatch balls ! i) (ball_key g s balls i)"
    by (auto simp add: moved_def)
  let ?b = "unbatch balls ! i" and ?k = "ball_key g s balls i"
  from settle_cases [of g s ?b ?k] show ?thesis
  proof
    assume "settle g s ?b ?k = position ?b"
    with p i show ?thesis by (simp add: position_unbatch)
  next
    assume "\<exists>j<3. settle g s ?b ?k = candidate g ?b ?k j
      \<and> can_spawn_there s (?b\<lparr>position := candidate g ?b ?k j\<rparr>) = Inr True"
    then obtain j where "p = candidate g ?b ?k j"
      and ok: "can_spawn_there s (?b\<lparr>position := candidate g ?b ?k j\<rparr>) = Inr True"
      using p by auto
    from ok have ix: "indexable s" by (rule accepted_indexable)
    from ok ix \<open>p = candidate g ?b ?k j\<close>
    have "cell (grid s) p = 0" and "\<forall>kb \<in> set (entities s). hd (position (snd kb)) \<noteq> p"
      by (simp_all add: can_spawn_there_eq)
    with ix show ?thesis by (simp add: grid_at_cell)
  qed
qed

lemma update_balls_mover_invariant:
  assumes "mover_invariant blocking s" and "update_balls g s = Inr s'"
  shows "mover_invariant blocking s'"
proof (cases "map_of (entities s) BALL")
  case None
  with assms show ?thesis by (simp add: update_balls_def)
next
  case (Some balls)
  let ?balls' = "balls\<lparr>position := moved g s balls\<rparr>"
  from update_balls_returns(1) [OF assms(2) Some]
  have e: "entities s' = AList.update BALL ?balls' (entities s)"
    by (simp add: pass_result_frame)
  from Some have old: "(BALL, balls) \<in> set (entities s)"
    by (rule map_of_SomeD)
  from assms(1) have clear: "balls_clear blocking s"
    and dist: "distinct (positions_of (\<lambda>k. blocking k \<and> k \<noteq> BALL) s)"
    by (simp_all add: mover_invariant_def)
  have off: "off_obstacles s'"
    using assms by (auto simp add: mover_invariant_def intro: update_balls_off_obstacles)
  have "filter (\<lambda>kb. blocking (fst kb) \<and> fst kb \<noteq> BALL) (entities s')
        = filter (\<lambda>kb. blocking (fst kb) \<and> fst kb \<noteq> BALL) (entities s)"
    unfolding e by (rule filter_update_other) simp
  with dist have dist': "distinct (positions_of (\<lambda>k. blocking k \<and> k \<noteq> BALL) s')"
    by (simp add: positions_of_def)
  have "balls_clear blocking s'"
    unfolding balls_clear_def
  proof (intro ballI impI)
    fix kb kb'
    assume kb: "kb \<in> set (entities s')" and kb': "kb' \<in> set (entities s')"
      and h: "fst kb = BALL \<and> fst kb' \<noteq> BALL \<and> blocking (fst kb') \<and> position (snd kb') \<noteq> []"
    from kb' h e set_update_subset [of BALL ?balls' "entities s"]
    have kb's: "kb' \<in> set (entities s)" by auto
    from kb e set_update_subset [of BALL ?balls' "entities s"]
    have "kb = (BALL, ?balls') \<or> kb \<in> set (entities s)" by auto
    then show "hd (position (snd kb')) \<notin> set (position (snd kb))"
    proof
      assume "kb \<in> set (entities s)"
      with clear kb's h show ?thesis
        unfolding balls_clear_def by blast
    next
      assume new: "kb = (BALL, ?balls')"
      show ?thesis
      proof
        assume "hd (position (snd kb')) \<in> set (position (snd kb))"
        with new have "hd (position (snd kb')) \<in> set (moved g s balls)" by simp
        from moved_lands [OF this] kb's
        have "hd (position (snd kb')) \<in> set (position balls)" by blast
        moreover from clear old kb's h
        have "hd (position (snd kb')) \<notin> set (position (snd (BALL, balls)))"
          unfolding balls_clear_def by (metis fst_conv)
        ultimately show False by simp
      qed
    qed
  qed
  with off dist' show ?thesis by (simp add: mover_invariant_def)
qed

lemma stochastic_transition_mover_invariant:
  assumes "\<forall>f \<in> set actions_set. \<forall>s. mover_invariant blocking s \<longrightarrow> mover_invariant blocking (f s)"
    and "mover_invariant blocking s"
    and "stochastic_transition g s a actions_set = Inr s'"
  shows "mover_invariant blocking s'"
proof -
  from assms(3) obtain s1 where sw: "lax_switch state_structure a actions_set s = Inr s1"
    and upd: "update_balls g s1 = Inr s'"
    by (auto simp add: stochastic_transition_def split: sum.splits)
  from lax_switch_Inr [OF sw] obtain f where f: "f \<in> set actions_set" and s1: "s1 = f s"
    by blast
  from f assms(1,2) have "mover_invariant blocking (f s)" by simp
  with s1 upd show ?thesis by (auto intro: update_balls_mover_invariant)
qed

lemma run_steps_mover:
  assumes "\<forall>f \<in> set actions_set. \<forall>s. mover_invariant blocking s \<longrightarrow> mover_invariant blocking (f s)"
  shows "mover_invariant blocking s0 \<Longrightarrow> run_steps g actions_set s0 as = Inr s
         \<Longrightarrow> mover_invariant blocking s"
proof (induction as arbitrary: s0)
  case Nil
  then show ?case by simp
next
  case (Cons a as)
  from Cons.prems(2) obtain s1 where s1: "stochastic_transition g s0 a actions_set = Inr s1"
    and rest: "run_steps g actions_set s1 as = Inr s"
    by (auto split: sum.splits)
  from stochastic_transition_mover_invariant [OF assms Cons.prems(1) s1]
  have "mover_invariant blocking s1" .
  from Cons.IH [OF this rest] show ?case .
qed

lemma one_ball_invariant: "occupancy_invariant (\<lambda>k. True) one_ball"
  by (simp add: occupancy_invariant_def positions_of_def off_obstacles_def one_ball_def
      grid_at_def example_room_def jnp_index_def)

lemma one_ball_run: "run_steps example_prng [id] one_ball [0] = Inr moved_ball"
proof -
  let ?balls = "\<lparr>position = [(1, 1)], direction = [0], tag = [0]\<rparr> :: batch"
  have present: "map_of (entities one_ball) BALL = Some ?balls"
    by (simp add: one_ball_def)
  have ix: "indexable one_ball"
    by (simp add: indexable_def one_ball_def example_room_def)
  have al: "aligned ?balls" by (simp add: aligned_def)
  have k0: "ball_key example_prng one_ball ?balls 0 = 2"
    by (simp add: ball_key_def random_split_def example_prng_def one_ball_def)
  have u0: "unbatch ?balls ! 0 = \<lparr>position = (1, 1), direction = 0, tag = 0\<rparr>"
    by (simp add: unbatch_def)
  have m0: "settle example_prng one_ball \<lparr>position = (1, 1), direction = 0, tag = 0\<rparr> 2 = (1, 2)"
    by (simp add: settle_def candidate_def translate_def random_randint_def random_split_def
        example_prng_def can_spawn_there_eq indexable_def cell_def one_ball_def example_room_def
        jnp_index_def)
  have "moved example_prng one_ball ?balls = [(1, 2)]"
    by (simp add: moved_def u0 k0 m0)
  then have "pass_result example_prng one_ball ?balls = moved_ball"
    by (simp add: pass_result_def set_balls_def one_ball_def moved_ball_def random_split_def
        example_prng_def)
  with update_balls_pass_result [OF present ix al, of example_prng]
  show ?thesis
    by (simp add: stochastic_transition_def lax_switch_def)
qed

lemma settle_subkey:
  "i < length (position balls) \<Longrightarrow>
     settle g s (unbatch balls ! i) (ball_key g s balls i) =
       (let b = unbatch balls ! i; k = subkey g (key s) (length (position balls) + 1) (i + 1)
        in if can_spawn_there s (b\<lparr>position := candidate g b k 0\<rparr>) = Inr True
           then candidate g b k 0
           else if can_spawn_there s (b\<lparr>position := candidate g b k 1\<rparr>) = Inr True
           then candidate g b k 1
           else if can_spawn_there s (b\<lparr>position := candidate g b k 2\<rparr>) = Inr True
           then candidate g b k 2
           else position balls ! i)"
  by (simp only: settle_def ball_key_subkey position_unbatch Let_def)

section \<open>The occupancy check\<close>

text \<open>
  C1. The occupancy check is meant to reject a position that any entity of any batch
  occupies. It compares the position with entry 0 of each batch only: in the state with
  balls at (1, 1) and (1, 2), the cell (1, 2) is occupied by the second ball, and the check
  accepts it.
\<close>

theorem can_spawn_there_accepts_occupied_cell:
  "(1, 2) \<in> set (concat (map (\<lambda>kb. position (snd kb)) (entities two_balls)))
   \<and> can_spawn_there two_balls \<lparr>position = (1, 2), direction = 0, tag = 0\<rparr> = Inr True"
  by (simp add: can_spawn_there_eq indexable_def cell_def two_balls_def ball_pair_def
      example_room_def jnp_index_def)

section \<open>The deterministic transition\<close>

text \<open>
  C2, as stated: an action index outside the table is an error. It is not: index 7 on a
  table of two actions runs the last action.
\<close>

theorem deterministic_transition_out_of_range_counterexample:
  "\<not> (7 < int (length [id, tick :: nat state \<Rightarrow> nat state]))
   \<and> deterministic_transition two_balls 7 [id, tick] = Inr (tick two_balls)"
  by (simp add: deterministic_transition_def lax_switch_def switch_index_def int32_def
      state_structure_def tick_def)

text \<open>
  C2, amended: on a table that is not empty and whose actions return states of one
  structure, no index is an error. The index is converted to int32 and clamped into the
  table: an index in \<open>[-2^31, 0)\<close> runs the first action, an index from the length of the
  table up to \<open>2^31 - 1\<close> the last one, and the state that action returns is the result.
  Beyond the range of int32 the index wraps first.
\<close>

theorem deterministic_transition_clamps:
  assumes "actions_set \<noteq> []"
    and "\<forall>f \<in> set actions_set. state_structure (f s) = state_structure (hd actions_set s)"
  shows "deterministic_transition s a actions_set
           = Inr ((actions_set ! switch_index a (length actions_set)) s)
         \<and> (- 2147483648 \<le> a \<and> a < 0 \<longrightarrow>
               deterministic_transition s a actions_set = Inr (hd actions_set s))
         \<and> (int (length actions_set) \<le> a \<and> a < 2147483648 \<longrightarrow>
               deterministic_transition s a actions_set = Inr (last actions_set s))"
proof (intro conjI impI)
  from assms(2) have "\<not> (\<exists>f \<in> set actions_set.
      state_structure (f s) \<noteq> state_structure (hd actions_set s))"
    by blast
  with assms(1) show run: "deterministic_transition s a actions_set
      = Inr ((actions_set ! switch_index a (length actions_set)) s)"
    by (simp only: deterministic_transition_def lax_switch_eq simp_thms if_False)
  show "deterministic_transition s a actions_set = Inr (hd actions_set s)"
    if "- 2147483648 \<le> a \<and> a < 0"
  proof -
    from that have "int32 a = a" by (simp add: int32_id)
    with that have "switch_index a (length actions_set) = 0"
      by (simp add: switch_index_def)
    with run assms(1) show ?thesis by (simp add: hd_conv_nth)
  qed
  show "deterministic_transition s a actions_set = Inr (last actions_set s)"
    if "int (length actions_set) \<le> a \<and> a < 2147483648"
  proof -
    from that have "int32 a = a" by (simp add: int32_id)
    with that assms(1) have "switch_index a (length actions_set) = length actions_set - 1"
      by (cases actions_set) (auto simp add: switch_index_def)
    with run assms(1) show ?thesis by (simp add: last_conv_nth)
  qed
qed

text \<open>
  Index -3 runs the first of two actions, and so does index \<open>2^31\<close>, which is \<open>-2^31\<close> as
  an int32.
\<close>

theorem deterministic_transition_clamps_witness:
  "deterministic_transition two_balls (- 3) [tick, id] = Inr (tick two_balls)
   \<and> deterministic_transition two_balls 2147483648 [tick, id] = Inr (tick two_balls)"
proof -
  have h1: "[tick, id :: nat state \<Rightarrow> nat state] \<noteq> []" by simp
  have h2: "\<forall>f \<in> set [tick, id :: nat state \<Rightarrow> nat state].
      state_structure (f two_balls) = state_structure (hd [tick, id] two_balls)"
    by (simp add: state_structure_def tick_def)
  note clamps = deterministic_transition_clamps [OF h1 h2]
  have low: "(- 2147483648 :: int) \<le> - 3 \<and> (- 3 :: int) < 0" by simp
  from clamps [of "- 3", THEN conjunct2, THEN conjunct1, rule_format, OF low]
  have a: "deterministic_transition two_balls (- 3) [tick, id] = Inr (tick two_balls)"
    by simp
  have "switch_index 2147483648 (length [tick, id :: nat state \<Rightarrow> nat state]) = 0"
    by (simp add: switch_index_def int32_def)
  with clamps [of 2147483648, THEN conjunct1]
  have b: "deterministic_transition two_balls 2147483648 [tick, id] = Inr (tick two_balls)"
    by simp
  from a b show ?thesis by (rule conjI)
qed

text \<open>
  C7, as stated: for every action table, two states that differ only in the seed give next
  states that differ only in the seed. The transition draws nothing itself, but it runs
  whatever action the table holds, and an action can read the key of the state: here one
  that copies the seed into the step counter.
\<close>

theorem deterministic_transition_seed_counterexample:
  "map_sum id steps (deterministic_transition (two_balls\<lparr>key := 1\<rparr>) 0 [seed_to_steps]) = Inr 1
   \<and> map_sum id steps (deterministic_transition (two_balls\<lparr>key := 2\<rparr>) 0 [seed_to_steps]) = Inr 2"
  by (simp add: deterministic_transition_def lax_switch_def seed_to_steps_def)

text \<open>
  C7, amended: when every action of the table is blind to the seed, two states that differ
  only in the seed give results that differ only in the seed (the same error, or next
  states that agree once the key is overwritten).
\<close>

theorem deterministic_transition_seed_blind:
  assumes "\<forall>f \<in> set actions_set. seed_blind f"
  shows "map_sum id (erase_key k0) (deterministic_transition (s\<lparr>key := k\<rparr>) a actions_set)
         = map_sum id (erase_key k0) (deterministic_transition s a actions_set)"
proof (cases "actions_set = []")
  case True
  then show ?thesis by (simp add: deterministic_transition_def lax_switch_eq)
next
  case False
  let ?f = "actions_set ! switch_index a (length actions_set)"
  from False have "switch_index a (length actions_set) < length actions_set"
    by (simp add: switch_index_less)
  then have "?f \<in> set actions_set" by (rule nth_mem)
  with assms have "seed_blind ?f" by (rule bspec)
  then have run: "erase_key k0 (?f (s\<lparr>key := k\<rparr>)) = erase_key k0 (?f s)"
    unfolding seed_blind_def by (elim allE)
  have same: "state_structure (f (s\<lparr>key := k\<rparr>)) = state_structure (f s)" if "f \<in> set actions_set" for f
    using assms that by (simp add: seed_blind_structure)
  from False have hd_mem: "hd actions_set \<in> set actions_set" by simp
  have "(state_structure (f (s\<lparr>key := k\<rparr>)) \<noteq> state_structure (hd actions_set (s\<lparr>key := k\<rparr>)))
      = (state_structure (f s) \<noteq> state_structure (hd actions_set s))" if "f \<in> set actions_set" for f
    by (simp only: same [OF that] same [OF hd_mem])
  then have cond: "(\<exists>f \<in> set actions_set.
        state_structure (f (s\<lparr>key := k\<rparr>)) \<noteq> state_structure (hd actions_set (s\<lparr>key := k\<rparr>)))
      = (\<exists>f \<in> set actions_set. state_structure (f s) \<noteq> state_structure (hd actions_set s))"
    by (rule bex_cong [OF refl])
  show ?thesis
  proof (cases "length actions_set \<noteq> 1 \<and> (\<exists>f \<in> set actions_set.
      state_structure (f s) \<noteq> state_structure (hd actions_set s))")
    case True
    with False show ?thesis
      unfolding deterministic_transition_def lax_switch_eq cond by simp
  next
    case no_error: False
    with False run show ?thesis
      unfolding deterministic_transition_def lax_switch_eq cond by simp
  qed
qed

theorem deterministic_transition_seed_blind_witness:
  "map_sum id (erase_key 0) (deterministic_transition (two_balls\<lparr>key := 5\<rparr>) 1 [id, tick])
   = map_sum id (erase_key 0) (deterministic_transition two_balls 1 [id, tick])"
proof -
  have h: "\<forall>f \<in> set [id, tick :: nat state \<Rightarrow> nat state]. seed_blind f"
    by (simp add: seed_blind_def erase_key_def tick_def)
  from deterministic_transition_seed_blind [OF h] show ?thesis .
qed

section \<open>The stochastic mover\<close>

text \<open>
  C4. Bounded-attempt fallback: in a state with a ball batch, if the occupancy check
  rejects all three candidates of ball \<open>i\<close>, then in every state that the pass returns the
  position of the ball is its position before the pass; and the pass does return a state
  when the fields of the batch are aligned.
\<close>

theorem bounded_attempt_fallback:
  assumes "map_of (entities s) BALL = Some balls"
    and "i < length (position balls)"
    and "\<forall>j<3. can_spawn_there s ((unbatch balls ! i)\<lparr>position :=
            candidate g (unbatch balls ! i) (ball_key g s balls i) j\<rparr>) = Inr False"
  shows "(aligned balls \<longrightarrow> (\<exists>s'. update_balls g s = Inr s'))
         \<and> (\<forall>s'. update_balls g s = Inr s' \<longrightarrow>
               (\<exists>balls'. map_of (entities s') BALL = Some balls'
                  \<and> position balls' ! i = position balls ! i))"
proof (intro conjI allI impI)
  have "(0::nat) < 3" by simp
  with assms(3) have "indexable s"
    using accepted_indexable by blast
  then show "\<exists>s'. update_balls g s = Inr s'" if "aligned balls"
    using update_balls_pass_result [OF assms(1) _ that] by blast
next
  fix s' assume upd: "update_balls g s = Inr s'"
  have "position (balls\<lparr>position := moved g s balls\<rparr>) ! i = position balls ! i"
    using assms(2) settle_rejected [OF assms(3)] by (simp add: moved_nth position_unbatch)
  with update_balls_returns_balls [OF upd assms(1)]
  show "\<exists>balls'. map_of (entities s') BALL = Some balls' \<and> position balls' ! i = position balls ! i"
    by blast
qed


text \<open>A ball in a room of one cell: every candidate is a border cell.\<close>

theorem bounded_attempt_fallback_witness:
  "\<exists>s' balls'. update_balls example_prng boxed_ball = Inr s' \<and> map_of (entities s') BALL = Some balls'
           \<and> position balls' ! 0 = (1, 1)"
proof -
  let ?balls = "\<lparr>position = [(1, 1)], direction = [0], tag = [0]\<rparr> :: batch"
  have h1: "map_of (entities boxed_ball) BALL = Some ?balls"
    by (simp add: boxed_ball_def)
  have h2: "aligned ?balls" by (simp add: aligned_def)
  have h3: "0 < length (position ?balls)" by simp
  have h4: "\<forall>j<3. can_spawn_there boxed_ball ((unbatch ?balls ! 0)\<lparr>position :=
            candidate example_prng (unbatch ?balls ! 0) (ball_key example_prng boxed_ball ?balls 0) j\<rparr>) = Inr False"
    by (simp add: can_spawn_there_eq indexable_def cell_def boxed_ball_def example_room_def
        jnp_index_def candidate_def translate_def random_randint_def random_split_def
        example_prng_def ball_key_def unbatch_def)
  note fallback = bounded_attempt_fallback [OF h1 h3 h4]
  from fallback h2 obtain s' where upd: "update_balls example_prng boxed_ball = Inr s'"
    by blast
  with fallback obtain balls' where "map_of (entities s') BALL = Some balls'"
    and "position balls' ! 0 = position ?balls ! 0"
    by blast
  with upd show ?thesis by simp
qed

text \<open>
  C5. The first candidate that passes is accepted: if attempt \<open>j\<close> passes the occupancy
  check and the attempts before it are rejected, the ball's new position is the candidate
  of attempt \<open>j\<close>, whatever the later attempts give.
\<close>

theorem first_passing_candidate_accepted:
  assumes "map_of (entities s) BALL = Some balls"
    and "i < length (position balls)"
    and "j < 3"
    and "can_spawn_there s ((unbatch balls ! i)\<lparr>position :=
            candidate g (unbatch balls ! i) (ball_key g s balls i) j\<rparr>) = Inr True"
    and "\<forall>j'<j. can_spawn_there s ((unbatch balls ! i)\<lparr>position :=
            candidate g (unbatch balls ! i) (ball_key g s balls i) j'\<rparr>) = Inr False"
  shows "(aligned balls \<longrightarrow> (\<exists>s'. update_balls g s = Inr s'))
         \<and> (\<forall>s'. update_balls g s = Inr s' \<longrightarrow>
               (\<exists>balls'. map_of (entities s') BALL = Some balls'
                  \<and> position balls' ! i = candidate g (unbatch balls ! i) (ball_key g s balls i) j))"
proof (intro conjI allI impI)
  from assms(4) have "indexable s"
    by (rule accepted_indexable)
  then show "\<exists>s'. update_balls g s = Inr s'" if "aligned balls"
    using update_balls_pass_result [OF assms(1) _ that] by blast
next
  fix s' assume upd: "update_balls g s = Inr s'"
  have "position (balls\<lparr>position := moved g s balls\<rparr>) ! i
        = candidate g (unbatch balls ! i) (ball_key g s balls i) j"
    using assms(2) settle_first_passing [OF assms(3,4,5)] by (simp add: moved_nth)
  with update_balls_returns_balls [OF upd assms(1)]
  show "\<exists>balls'. map_of (entities s') BALL = Some balls'
          \<and> position balls' ! i = candidate g (unbatch balls ! i) (ball_key g s balls i) j"
    by blast
qed

text \<open>
  The ball at (1, 1) first proposes the border cell (0, 1), then the free cell (1, 2).
\<close>

theorem first_passing_candidate_accepted_witness:
  "\<exists>s' balls'. update_balls example_prng one_ball = Inr s' \<and> map_of (entities s') BALL = Some balls'
           \<and> position balls' ! 0 = (1, 2)"
proof -
  let ?balls = "\<lparr>position = [(1, 1)], direction = [0], tag = [0]\<rparr> :: batch"
  let ?b = "unbatch ?balls ! 0" and ?k = "ball_key example_prng one_ball ?balls 0"
  have c0: "candidate example_prng ?b ?k 0 = (0, 1)"
    by (simp add: candidate_def translate_def random_randint_def random_split_def
        example_prng_def ball_key_def unbatch_def one_ball_def)
  have c1: "candidate example_prng ?b ?k 1 = (1, 2)"
    by (simp add: candidate_def translate_def random_randint_def random_split_def
        example_prng_def ball_key_def unbatch_def one_ball_def)
  have h1: "map_of (entities one_ball) BALL = Some ?balls"
    by (simp add: one_ball_def)
  have h2: "aligned ?balls" by (simp add: aligned_def)
  have h3: "0 < length (position ?balls)" by simp
  have h4: "(1::nat) < 3" by simp
  have h5: "can_spawn_there one_ball (?b\<lparr>position := candidate example_prng ?b ?k 1\<rparr>) = Inr True"
    unfolding c1
    by (simp add: can_spawn_there_eq indexable_def cell_def one_ball_def example_room_def
        jnp_index_def)
  have h6: "\<forall>j'<1. can_spawn_there one_ball (?b\<lparr>position := candidate example_prng ?b ?k j'\<rparr>) = Inr False"
    using c0
    by (simp add: can_spawn_there_eq indexable_def cell_def one_ball_def example_room_def
        jnp_index_def)
  note first = first_passing_candidate_accepted [OF h1 h3 h4 h5 h6]
  from first h2 obtain s' where upd: "update_balls example_prng one_ball = Inr s'"
    by blast
  with first obtain balls' where "map_of (entities s') BALL = Some balls'"
    and "position balls' ! 0 = candidate example_prng ?b ?k 1"
    by blast
  with upd c1 show ?thesis by auto
qed

text \<open>
  C6. Every candidate is tested against the state at pass entry: when the pass runs on
  \<open>s\<close>, the new position of ball \<open>i\<close> is the first of its three candidates that the
  occupancy check accepts on \<open>s\<close> itself, or its old position. The candidates come from the
  ball's own sub-seed (child \<open>i + 1\<close> of the split of the state's key), so the outcome
  depends on that sub-seed and on \<open>s\<close> only. The pass returns a state when the state is
  indexable and the batch is aligned.
\<close>

theorem update_balls_tests_against_snapshot:
  assumes "map_of (entities s) BALL = Some balls"
  shows "(indexable s \<and> aligned balls \<longrightarrow> (\<exists>s'. update_balls g s = Inr s'))
         \<and> (\<forall>s'. update_balls g s = Inr s' \<longrightarrow>
               (\<exists>balls'. map_of (entities s') BALL = Some balls'
                  \<and> length (position balls') = length (position balls)
                  \<and> (\<forall>i < length (position balls).
                        position balls' ! i =
                          (let b = unbatch balls ! i;
                               k = subkey g (key s) (length (position balls) + 1) (i + 1)
                           in if can_spawn_there s (b\<lparr>position := candidate g b k 0\<rparr>) = Inr True
                              then candidate g b k 0
                              else if can_spawn_there s (b\<lparr>position := candidate g b k 1\<rparr>) = Inr True
                              then candidate g b k 1
                              else if can_spawn_there s (b\<lparr>position := candidate g b k 2\<rparr>) = Inr True
                              then candidate g b k 2
                              else position balls ! i))))"
proof (intro conjI allI impI)
  show "\<exists>s'. update_balls g s = Inr s'" if "indexable s \<and> aligned balls"
    using update_balls_pass_result [OF assms, of g] that by blast
next
  fix s' assume upd: "update_balls g s = Inr s'"
  let ?balls' = "balls\<lparr>position := moved g s balls\<rparr>"
  show "\<exists>balls'. map_of (entities s') BALL = Some balls'
      \<and> length (position balls') = length (position balls)
      \<and> (\<forall>i < length (position balls).
            position balls' ! i =
              (let b = unbatch balls ! i;
                   k = subkey g (key s) (length (position balls) + 1) (i + 1)
               in if can_spawn_there s (b\<lparr>position := candidate g b k 0\<rparr>) = Inr True
                  then candidate g b k 0
                  else if can_spawn_there s (b\<lparr>position := candidate g b k 1\<rparr>) = Inr True
                  then candidate g b k 1
                  else if can_spawn_there s (b\<lparr>position := candidate g b k 2\<rparr>) = Inr True
                  then candidate g b k 2
                  else position balls ! i))"
  proof (intro exI conjI allI impI)
    show "map_of (entities s') BALL = Some ?balls'"
      by (rule update_balls_returns_balls [OF upd assms])
    show "length (position ?balls') = length (position balls)"
      by (simp add: length_moved)
    fix i assume i: "i < length (position balls)"
    have "position ?balls' ! i = settle g s (unbatch balls ! i) (ball_key g s balls i)"
      using i by (simp add: moved_nth)
    then show "position ?balls' ! i =
        (let b = unbatch balls ! i;
             k = subkey g (key s) (length (position balls) + 1) (i + 1)
         in if can_spawn_there s (b\<lparr>position := candidate g b k 0\<rparr>) = Inr True
            then candidate g b k 0
            else if can_spawn_there s (b\<lparr>position := candidate g b k 1\<rparr>) = Inr True
            then candidate g b k 1
            else if can_spawn_there s (b\<lparr>position := candidate g b k 2\<rparr>) = Inr True
            then candidate g b k 2
            else position balls ! i)"
      by (simp only: settle_subkey [OF i])
  qed
qed

text \<open>
  The corridor: against the state at pass entry the middle cell is free for both balls,
  and both move to it; tested against the first ball's new position, the second ball
  would be rejected there.
\<close>

theorem update_balls_tests_against_snapshot_witness:
  "\<exists>s' balls'. update_balls example_prng corridor = Inr s'
      \<and> map_of (entities s') BALL = Some balls'
      \<and> position balls' ! 0 = (1, 2) \<and> position balls' ! 1 = (1, 2)"
proof -
  let ?balls = "\<lparr>position = [(1, 1), (1, 3)], direction = [0, 0], tag = [0, 0]\<rparr> :: batch"
  have present: "map_of (entities corridor) BALL = Some ?balls"
    by (simp add: corridor_def)
  have ix: "indexable corridor"
    by (simp add: indexable_def corridor_def example_room_def)
  have al: "aligned ?balls" by (simp add: aligned_def)
  note snapshot = update_balls_tests_against_snapshot [OF present, of example_prng]
  have "\<exists>s'. update_balls example_prng corridor = Inr s'"
    by (rule snapshot [THEN conjunct1, THEN mp]) (intro conjI ix al)
  then obtain s' where upd: "update_balls example_prng corridor = Inr s'" ..
  have i0: "(0::nat) < length (position ?balls)" and i1: "(1::nat) < length (position ?balls)"
    by simp_all
  from snapshot [THEN conjunct2, THEN spec, THEN mp, OF upd] show ?thesis
  proof (elim exE conjE)
    fix balls'
    assume b: "map_of (entities s') BALL = Some balls'"
      and each: "\<forall>i < length (position ?balls).
        position balls' ! i =
          (let b = unbatch ?balls ! i;
               k = subkey example_prng (key corridor) (length (position ?balls) + 1) (i + 1)
           in if can_spawn_there corridor (b\<lparr>position := candidate example_prng b k 0\<rparr>) = Inr True
              then candidate example_prng b k 0
              else if can_spawn_there corridor (b\<lparr>position := candidate example_prng b k 1\<rparr>) = Inr True
              then candidate example_prng b k 1
              else if can_spawn_there corridor (b\<lparr>position := candidate example_prng b k 2\<rparr>) = Inr True
              then candidate example_prng b k 2
              else position ?balls ! i)"
    from each [THEN spec, THEN mp, OF i0] have p0: "position balls' ! 0 = (1, 2)"
      by (simp add: unbatch_def candidate_def translate_def random_randint_def random_split_def
          example_prng_def can_spawn_there_eq indexable_def cell_def corridor_def example_room_def
          jnp_index_def)
    from each [THEN spec, THEN mp, OF i1] have p1: "position balls' ! 1 = (1, 2)"
      by (simp add: unbatch_def candidate_def translate_def random_randint_def random_split_def
          example_prng_def can_spawn_there_eq indexable_def cell_def corridor_def example_room_def
          jnp_index_def)
    show ?thesis
      by (rule exI [of _ s'], rule exI [of _ balls']) (intro conjI upd b p0 p1)
  qed
qed

text \<open>
  C10. The pass changes the positions of the ball batch and the key only: the grid, the
  step counter, the batches of the other kinds and the other fields of the ball batch are
  unchanged, and every ball stays or moves one cell in one of the 4 headings.
\<close>

theorem update_balls_frame:
  assumes "map_of (entities s) BALL = Some balls"
  shows "(indexable s \<and> aligned balls \<longrightarrow> (\<exists>s'. update_balls g s = Inr s'))
         \<and> (\<forall>s'. update_balls g s = Inr s' \<longrightarrow>
               (\<exists>balls'. grid s' = grid s \<and> steps s' = steps s
                  \<and> entities s' = AList.update BALL balls' (entities s)
                  \<and> (\<forall>k. k \<noteq> BALL \<longrightarrow> map_of (entities s') k = map_of (entities s) k)
                  \<and> map_of (entities s') BALL = Some balls'
                  \<and> direction balls' = direction balls \<and> tag balls' = tag balls
                  \<and> length (position balls') = length (position balls)
                  \<and> (\<forall>i < length (position balls).
                        position balls' ! i = position balls ! i
                        \<or> (\<exists>d \<in> {0, 1, 2, 3}.
                              position balls' ! i = translate (position balls ! i) d))))"
proof (intro conjI allI impI)
  show "\<exists>s'. update_balls g s = Inr s'" if "indexable s \<and> aligned balls"
    using update_balls_pass_result [OF assms, of g] that by blast
next
  fix s' assume upd: "update_balls g s = Inr s'"
  let ?balls' = "balls\<lparr>position := moved g s balls\<rparr>"
  have s': "s' = pass_result g s balls"
    by (rule update_balls_returns(1) [OF upd assms])
  show "\<exists>balls'. grid s' = grid s \<and> steps s' = steps s
          \<and> entities s' = AList.update BALL balls' (entities s)
          \<and> (\<forall>k. k \<noteq> BALL \<longrightarrow> map_of (entities s') k = map_of (entities s) k)
          \<and> map_of (entities s') BALL = Some balls'
          \<and> direction balls' = direction balls \<and> tag balls' = tag balls
          \<and> length (position balls') = length (position balls)
          \<and> (\<forall>i < length (position balls).
                position balls' ! i = position balls ! i
                \<or> (\<exists>d \<in> {0, 1, 2, 3}. position balls' ! i = translate (position balls ! i) d))"
  proof (intro exI conjI)
    show "grid s' = grid s" and "steps s' = steps s"
      and "entities s' = AList.update BALL ?balls' (entities s)"
      unfolding s' by (rule pass_result_frame)+
    show "\<forall>k. k \<noteq> BALL \<longrightarrow> map_of (entities s') k = map_of (entities s) k"
      unfolding s' by (simp add: pass_result_frame update_conv')
    show "map_of (entities s') BALL = Some ?balls'"
      unfolding s' by (rule pass_result_balls)
    show "direction ?balls' = direction balls" and "tag ?balls' = tag balls"
      by simp_all
    show "length (position ?balls') = length (position balls)"
      by (simp add: length_moved)
    show "\<forall>i < length (position balls).
            position ?balls' ! i = position balls ! i
            \<or> (\<exists>d \<in> {0, 1, 2, 3}. position ?balls' ! i = translate (position balls ! i) d)"
    proof (intro allI impI)
      fix i assume i: "i < length (position balls)"
      from settle_step [of g s "unbatch balls ! i" "ball_key g s balls i"] i
      show "position ?balls' ! i = position balls ! i
            \<or> (\<exists>d \<in> {0, 1, 2, 3}. position ?balls' ! i = translate (position balls ! i) d)"
        by (simp add: moved_nth position_unbatch)
    qed
  qed
qed

theorem update_balls_frame_witness:
  "\<exists>s' balls'. update_balls example_prng two_balls = Inr s'
      \<and> grid s' = grid two_balls \<and> steps s' = steps two_balls
      \<and> entities s' = AList.update BALL balls' (entities two_balls)
      \<and> (\<forall>k. k \<noteq> BALL \<longrightarrow> map_of (entities s') k = map_of (entities two_balls) k)
      \<and> map_of (entities s') BALL = Some balls'
      \<and> direction balls' = direction ball_pair \<and> tag balls' = tag ball_pair
      \<and> length (position balls') = length (position ball_pair)
      \<and> (\<forall>i < length (position ball_pair).
            position balls' ! i = position ball_pair ! i
            \<or> (\<exists>d \<in> {0, 1, 2, 3}. position balls' ! i = translate (position ball_pair ! i) d))"
proof -
  note frame = update_balls_frame [OF two_balls_present, of example_prng]
  from frame two_balls_indexable ball_pair_aligned
  obtain s' where upd: "update_balls example_prng two_balls = Inr s'"
    by blast
  from frame have "\<forall>s'. update_balls example_prng two_balls = Inr s' \<longrightarrow>
      (\<exists>balls'. grid s' = grid two_balls \<and> steps s' = steps two_balls
      \<and> entities s' = AList.update BALL balls' (entities two_balls)
      \<and> (\<forall>k. k \<noteq> BALL \<longrightarrow> map_of (entities s') k = map_of (entities two_balls) k)
      \<and> map_of (entities s') BALL = Some balls'
      \<and> direction balls' = direction ball_pair \<and> tag balls' = tag ball_pair
      \<and> length (position balls') = length (position ball_pair)
      \<and> (\<forall>i < length (position ball_pair).
            position balls' ! i = position ball_pair ! i
            \<or> (\<exists>d \<in> {0, 1, 2, 3}. position balls' ! i = translate (position ball_pair ! i) d)))"
    by (rule conjunct2)
  from this [rule_format, OF upd] upd show ?thesis
    by (elim exE) (rule exI, rule exI, erule conjI)
qed

section \<open>The stochastic transition\<close>

text \<open>
  C9, as stated: on every state without a ball batch and for every action table, the
  stochastic transition equals the deterministic one. The ball pass runs on the state
  that the action returns, and an action can add a ball batch: then the pass splits the key.
\<close>

theorem stochastic_differs_without_balls_counterexample:
  "map_of (entities player_only) BALL = None
   \<and> stochastic_transition example_prng player_only 0 [spawn_ball]
       \<noteq> deterministic_transition player_only 0 [spawn_ball]"
proof
  show "map_of (entities player_only) BALL = None"
    by (simp add: player_only_def)
next
  let ?b = "\<lparr>position = [(1, 1)], direction = [0], tag = [0]\<rparr> :: batch"
  let ?s = "spawn_ball player_only"
  have present: "map_of (entities ?s) BALL = Some ?b"
    by (simp add: spawn_ball_def set_balls_def update_conv')
  have ix: "indexable ?s"
    by (simp add: indexable_def spawn_ball_def set_balls_def player_only_def example_room_def)
  have al: "aligned ?b" by (simp add: aligned_def)
  have "stochastic_transition example_prng player_only 0 [spawn_ball] = Inr (pass_result example_prng ?s ?b)"
    by (simp add: stochastic_transition_def lax_switch_def update_balls_pass_result [OF present ix al])
  moreover have "deterministic_transition player_only 0 [spawn_ball] = Inr ?s"
    by (simp add: deterministic_transition_def lax_switch_def)
  moreover have "key (pass_result example_prng ?s ?b) = 1"
    by (simp add: pass_result_frame random_split_def example_prng_def spawn_ball_def set_balls_def
        player_only_def)
  moreover have "key ?s = 0"
    by (simp add: spawn_ball_def set_balls_def player_only_def)
  ultimately show "stochastic_transition example_prng player_only 0 [spawn_ball]
       \<noteq> deterministic_transition player_only 0 [spawn_ball]"
    by auto
qed

text \<open>
  C9, amended: whenever the state that the selected action returns has no ball batch, the
  stochastic transition equals the deterministic one (the ball pass is the identity on a
  state without a ball batch, key and entities included); when the action table is empty,
  both are the same error.
\<close>

theorem stochastic_equals_deterministic_without_balls:
  assumes "\<forall>s'. deterministic_transition s a actions_set = Inr s' \<longrightarrow> map_of (entities s') BALL = None"
  shows "stochastic_transition g s a actions_set = deterministic_transition s a actions_set
         \<and> (\<forall>s'. deterministic_transition s a actions_set = Inr s' \<longrightarrow> update_balls g s' = Inr s')"
proof (cases "lax_switch state_structure a actions_set s")
  case (Inl e)
  then show ?thesis
    by (simp add: stochastic_transition_def deterministic_transition_def)
next
  case (Inr s')
  with assms have "map_of (entities s') BALL = None"
    by (simp add: deterministic_transition_def)
  then have "update_balls g s' = Inr s'"
    by (simp add: update_balls_def)
  with Inr show ?thesis
    by (simp add: stochastic_transition_def deterministic_transition_def)
qed

theorem stochastic_equals_deterministic_without_balls_witness:
  "stochastic_transition example_prng player_only 1 [id, tick] = Inr (tick player_only)"
proof -
  have d: "deterministic_transition player_only 1 [id, tick] = Inr (tick player_only)"
    by (simp add: deterministic_transition_def lax_switch_def switch_index_def int32_def
        state_structure_def tick_def)
  have h: "\<forall>s'. deterministic_transition player_only 1 [id, tick] = Inr s'
             \<longrightarrow> map_of (entities s') BALL = None"
    unfolding d by (auto simp add: tick_def player_only_def)
  from stochastic_equals_deterministic_without_balls [OF h, of example_prng] d
  show ?thesis by simp
qed

section \<open>The occupancy invariant\<close>

text \<open>
  C3, as stated: in every state reached from a reset by steps, no two blocking entities
  share a position and no entity is on an obstacle cell. In a corridor of three cells with
  a ball at each end, both balls pass the check for the middle cell against the state at
  pass entry, and one step puts both on it (the state holds balls only, so this is so
  whichever other kinds block).
\<close>

theorem occupancy_invariant_counterexample:
  "occupancy_invariant (\<lambda>k. True) corridor
   \<and> run_steps example_prng [id] corridor [0] = Inr collided
   \<and> \<not> occupancy_invariant (\<lambda>k. k = BALL) collided"
  by (intro conjI corridor_invariant corridor_run collided_overlap)

text \<open>
  C3, amended: the distinctness of the balls among themselves is given up, and nothing
  is said of a ball and a later entry of a batch of another kind. When
  balls block and the actions of the table keep what the mover keeps, every state reached
  from a state that satisfies the invariant by any sequence of steps has no entity on an
  obstacle cell, its blocking entities other than balls on distinct cells, and no ball on
  the cell of the first entity of a blocking batch of another kind.
\<close>

theorem run_steps_keeps_weaker_invariant:
  assumes "blocking BALL"
    and "\<forall>f \<in> set actions_set. \<forall>s. mover_invariant blocking s \<longrightarrow> mover_invariant blocking (f s)"
    and "occupancy_invariant blocking s0"
    and "run_steps g actions_set s0 as = Inr s"
  shows "off_obstacles s
         \<and> distinct (positions_of (\<lambda>k. blocking k \<and> k \<noteq> BALL) s)
         \<and> balls_clear blocking s"
proof -
  from assms(3,1) have "mover_invariant blocking s0"
    by (rule occupancy_mover_invariant)
  from run_steps_mover [OF assms(2) this assms(4)] show ?thesis
    by (simp add: mover_invariant_def)
qed

text \<open>A player at (3, 3) and a ball that moves from (1, 1) to (1, 2).\<close>

theorem run_steps_keeps_weaker_invariant_witness:
  "off_obstacles moved_ball
   \<and> distinct (positions_of (\<lambda>k. True \<and> k \<noteq> BALL) moved_ball)
   \<and> balls_clear (\<lambda>k. True) moved_ball"
proof -
  have h1: "(\<lambda>k :: kind. True) BALL" by simp
  have h2: "\<forall>f \<in> set [id :: nat state \<Rightarrow> nat state].
      \<forall>s. mover_invariant (\<lambda>k. True) s \<longrightarrow> mover_invariant (\<lambda>k. True) (f s)"
    by simp
  from run_steps_keeps_weaker_invariant [of "\<lambda>k. True", OF h1 h2 one_ball_invariant one_ball_run]
  show ?thesis .
qed

section \<open>\<open>Room.reset\<close>\<close>

text \<open>
  C8, as stated: for every seed \<open>Room.reset\<close> returns a timestep. In a room of one
  walkable cell the two positions cannot be drawn, and \<open>reset\<close> fails with the error of
  \<open>random_positions\<close>.
\<close>

theorem reset_fails_in_tiny_room_counterexample:
  "random_positions_contract example_sampler
   \<and> reset example_prng example_sampler tiny_env 0 = Inl InsufficientFreeCells"
proof
  show "random_positions_contract example_sampler"
    by (rule example_sampler_contract)
  have "free_cells (example_room 3 3) = [(1, 1)]"
    by (simp add: free_cells_def example_room_def upt_rec)
  then show "reset example_prng example_sampler tiny_env 0 = Inl InsufficientFreeCells"
    by (simp add: reset_def Let_def example_sampler_def tiny_env_def)
qed

text \<open>
  C8, amended: for every seed, in a room with at least two walkable cells \<open>Room.reset\<close>
  returns the timestep with step index 0, step type 0 (ONGOING), reward 0, action 0 (the
  no-op sentinel) and the observation of its state; the state holds child 0 of the split
  seed, the player at the first and the goal at the second of the two positions that
  \<open>random_positions\<close> returned for child 1, which are distinct walkable cells, and the
  direction drawn from child 2. With fewer walkable cells it fails with
  InsufficientFreeCells.
\<close>

theorem reset_initial_timestep:
  assumes "random_positions_contract m"
  shows "(2 \<le> card (walkable_cells (cache_grid self)) \<longrightarrow>
           (\<exists>p0 p1. random_positions m (random_split g k0 3 ! 1) (cache_grid self) 2 = Inr [p0, p1]
              \<and> p0 \<noteq> p1
              \<and> p0 \<in> walkable_cells (cache_grid self) \<and> p1 \<in> walkable_cells (cache_grid self)
              \<and> (let st = \<lparr>room_state.key = random_split g k0 3 ! 0,
                             player = \<lparr>position = p0,
                                       direction = random_directions m (random_split g k0 3 ! 2) 1\<rparr>,
                             goals = \<lparr>position = [p1]\<rparr>\<rparr>
                 in reset g m self k0 =
                      Inr \<lparr>t = 0, observation = observation_fn self st, action = 0, reward = 0,
                           step_type = 0, state = st\<rparr>)))
         \<and> (card (walkable_cells (cache_grid self)) < 2 \<longrightarrow>
               reset g m self k0 = Inl InsufficientFreeCells)"
proof -
  let ?k1 = "random_split g k0 3 ! 1" and ?W = "walkable_cells (cache_grid self)"
  from assms have c: "if 2 \<le> card ?W
      then \<exists>ps. random_positions m ?k1 (cache_grid self) 2 = Inr ps \<and> length ps = 2 \<and> distinct ps
                  \<and> set ps \<subseteq> ?W
      else random_positions m ?k1 (cache_grid self) 2 = Inl InsufficientFreeCells"
    unfolding random_positions_contract_def by blast
  show ?thesis
  proof (cases "2 \<le> card ?W")
    case False
    with c have "reset g m self k0 = Inl InsufficientFreeCells"
      by (simp add: reset_def Let_def)
    with False show ?thesis by simp
  next
    case True
    with c obtain ps where ps: "random_positions m ?k1 (cache_grid self) 2 = Inr ps"
      and len: "length ps = 2" and dist: "distinct ps" and sub: "set ps \<subseteq> ?W"
      by auto
    from len obtain a b where ab: "ps = [a, b]"
      by (cases ps; cases "tl ps") auto
    with dist sub have f1: "a \<noteq> b" and f2: "a \<in> ?W" and f3: "b \<in> ?W"
      by simp_all
    from ps ab have f0: "random_positions m ?k1 (cache_grid self) 2 = Inr [a, b]"
      by simp
    then have f4: "(let st = \<lparr>room_state.key = random_split g k0 3 ! 0,
                             player = \<lparr>position = a,
                                       direction = random_directions m (random_split g k0 3 ! 2) 1\<rparr>,
                             goals = \<lparr>position = [b]\<rparr>\<rparr>
                 in reset g m self k0 =
                      Inr \<lparr>t = 0, observation = observation_fn self st, action = 0, reward = 0,
                           step_type = 0, state = st\<rparr>)"
      by (simp add: reset_def Let_def getitem_pair)
    show ?thesis
    proof (intro conjI impI)
      show "\<exists>p0 p1. random_positions m ?k1 (cache_grid self) 2 = Inr [p0, p1]
              \<and> p0 \<noteq> p1 \<and> p0 \<in> ?W \<and> p1 \<in> ?W
              \<and> (let st = \<lparr>room_state.key = random_split g k0 3 ! 0,
                             player = \<lparr>position = p0,
                                       direction = random_directions m (random_split g k0 3 ! 2) 1\<rparr>,
                             goals = \<lparr>position = [p1]\<rparr>\<rparr>
                 in reset g m self k0 =
                      Inr \<lparr>t = 0, observation = observation_fn self st, action = 0, reward = 0,
                           step_type = 0, state = st\<rparr>)"
        by (rule exI [of _ a], rule exI [of _ b]) (intro conjI f0 f1 f2 f3 f4)
      show "reset g m self k0 = Inl InsufficientFreeCells" if "card ?W < 2"
        using that True by simp
    qed
  qed
qed

theorem reset_initial_timestep_witness:
  "reset example_prng example_sampler example_env 0 =
     Inr \<lparr>t = 0, observation = (), action = 0, reward = 0, step_type = 0,
          state = \<lparr>room_state.key = 1, player = \<lparr>position = (1, 1), direction = [0]\<rparr>,
                   goals = \<lparr>position = [(1, 2)]\<rparr>\<rparr>\<rparr>"
proof -
  have free: "free_cells (example_room 4 4) = [(1, 1), (1, 2), (2, 1), (2, 2)]"
    by (simp add: free_cells_def example_room_def upt_rec)
  then have h: "2 \<le> card (walkable_cells (cache_grid example_env))"
    by (simp add: card_walkable_cells example_env_def)
  note initial = reset_initial_timestep [OF example_sampler_contract, of example_env example_prng 0]
  from initial [THEN conjunct1, THEN mp, OF h] show ?thesis
  proof (elim exE conjE)
    fix p0 p1
    assume drawn: "random_positions example_sampler (random_split example_prng 0 3 ! 1)
              (cache_grid example_env) 2 = Inr [p0, p1]"
      and ts: "(let st = \<lparr>room_state.key = random_split example_prng 0 3 ! 0,
                   player = \<lparr>position = p0,
                             direction = random_directions example_sampler
                               (random_split example_prng 0 3 ! 2) 1\<rparr>,
                   goals = \<lparr>position = [p1]\<rparr>\<rparr>
              in reset example_prng example_sampler example_env 0 =
                   Inr \<lparr>t = 0, observation = observation_fn example_env st, action = 0, reward = 0,
                        step_type = 0, state = st\<rparr>)"
    from drawn free have "p0 = (1, 1)" and "p1 = (1, 2)"
      by (simp_all add: example_sampler_def example_env_def)
    with ts show ?thesis
      by (simp add: Let_def example_sampler_def example_env_def random_split_def example_prng_def)
  qed
qed

end
